theory Spec2Isabelle
  imports Main "HOL-Library.Multiset"
begin

section \<open>Data model of main.go\<close>

text \<open>
  A Go \<open>string\<close> is a sequence of bytes, which is what \<^typ>\<open>string\<close> (a list of
  8-bit \<^typ>\<open>char\<close>) is.  A \<open>rune\<close> is a code point; every rune met below is the
  result of decoding, hence a natural number.
\<close>

type_synonym rune = nat

datatype TokenType = Subdomain | Path | ParamName | ParamValue | Fragment | Generic

record Token =
  Value :: string
  Type :: TokenType

section \<open>The runtime and library functions that main.go calls on strings\<close>

subsection \<open>UTF-8: what \<open>for _, r := range s\<close>, \<open>WriteRune\<close> and \<open>len\<close> do\<close>

definition RuneError :: rune where
  "RuneError = 0xFFFD"

text \<open>
  Decoding the first rune of a string and its width in bytes.  An ill-formed or
  truncated sequence decodes to \<open>RuneError\<close> with width 1; the empty string to
  \<open>RuneError\<close> with width 0.
\<close>

definition DecodeRuneInString :: "string \<Rightarrow> rune \<times> nat" where
  "DecodeRuneInString s =
    (if length s < 1 then (RuneError, 0)
     else
       let s0 = (of_char (s ! 0) :: nat) in
       if s0 < 0x80 then (s0, 1)
       else if s0 < 0xC2 \<or> 0xF4 < s0 then (RuneError, 1)
       else
         let sz = (if s0 < 0xE0 then 2 else if s0 < 0xF0 then 3 else (4::nat));
             lo = (if s0 = 0xE0 then 0xA0 else if s0 = 0xF0 then 0x90 else (0x80::nat));
             hi = (if s0 = 0xED then 0x9F else if s0 = 0xF4 then 0x8F else (0xBF::nat))
         in
         if length s < sz then (RuneError, 1)
         else
           let s1 = (of_char (s ! 1) :: nat) in
           if s1 < lo \<or> hi < s1 then (RuneError, 1)
           else if sz \<le> 2 then ((s0 mod 0x20) * 0x40 + s1 mod 0x40, 2)
           else
             let s2 = (of_char (s ! 2) :: nat) in
             if s2 < 0x80 \<or> 0xBF < s2 then (RuneError, 1)
             else if sz \<le> 3 then
               ((s0 mod 0x10) * 0x1000 + (s1 mod 0x40) * 0x40 + s2 mod 0x40, 3)
             else
               let s3 = (of_char (s ! 3) :: nat) in
               if s3 < 0x80 \<or> 0xBF < s3 then (RuneError, 1)
               else ((s0 mod 0x08) * 0x40000 + (s1 mod 0x40) * 0x1000
                       + (s2 mod 0x40) * 0x40 + s3 mod 0x40, 4))"

text \<open>
  The runes that \<open>for _, r := range s\<close> visits, in order.  The loop advances by the
  width of the rune just decoded, which is at least 1 on a non-empty string.
\<close>

fun runes :: "string \<Rightarrow> rune list" where
  "runes [] = []"
| "runes (c # s) =
     fst (DecodeRuneInString (c # s)) # runes (drop (snd (DecodeRuneInString (c # s)) - 1) s)"

text \<open>
  The bytes \<open>WriteRune\<close> appends for a rune (surrogates and values above
  \<open>U+10FFFF\<close> are written as \<open>RuneError\<close>).
\<close>

definition EncodeRune :: "rune \<Rightarrow> string" where
  "EncodeRune r =
    (if r \<le> 0x7F then [char_of r]
     else if r \<le> 0x7FF then [char_of (0xC0 + r div 0x40), char_of (0x80 + r mod 0x40)]
     else
       let r' = (if r > 0x10FFFF \<or> (0xD800 \<le> r \<and> r \<le> 0xDFFF) then RuneError else r) in
       if r' \<le> 0xFFFF then
         [char_of (0xE0 + r' div 0x1000), char_of (0x80 + (r' div 0x40) mod 0x40),
          char_of (0x80 + r' mod 0x40)]
       else
         [char_of (0xF0 + r' div 0x40000), char_of (0x80 + (r' div 0x1000) mod 0x40),
          char_of (0x80 + (r' div 0x40) mod 0x40), char_of (0x80 + r' mod 0x40)])"

subsection \<open>Package unicode: \<open>IsLetter\<close>, \<open>IsNumber\<close> and \<open>IsDigit\<close>\<close>

text \<open>
  The functions answer from a fixed property table for runes up to \<open>MaxLatin1\<close> and
  from the range tables \<open>unicode.Letter\<close>, \<open>unicode.Number\<close> and \<open>unicode.Digit\<close> above
  it.  The range tables are a parameter of the development; the Latin-1 part is written
  out.  \<open>main.go\<close> calls \<open>IsLetter\<close> and \<open>IsNumber\<close>; \<open>IsDigit\<close> (the decimal digits, a part
  of the numbers) is what a text that speaks of digits refers to.
\<close>

record tables =
  Letter :: "rune \<Rightarrow> bool"
  Number :: "rune \<Rightarrow> bool"
  Digit :: "rune \<Rightarrow> bool"

definition MaxLatin1 :: rune where
  "MaxLatin1 = 0xFF"

definition latin1Letter :: "rune \<Rightarrow> bool" where
  "latin1Letter r \<longleftrightarrow>
     (0x41 \<le> r \<and> r \<le> 0x5A) \<or> (0x61 \<le> r \<and> r \<le> 0x7A) \<or>
     r = 0xAA \<or> r = 0xB5 \<or> r = 0xBA \<or>
     (0xC0 \<le> r \<and> r \<le> 0xD6) \<or> (0xD8 \<le> r \<and> r \<le> 0xF6) \<or> (0xF8 \<le> r \<and> r \<le> 0xFF)"

definition latin1Number :: "rune \<Rightarrow> bool" where
  "latin1Number r \<longleftrightarrow>
     (0x30 \<le> r \<and> r \<le> 0x39) \<or> r = 0xB2 \<or> r = 0xB3 \<or> r = 0xB9 \<or>
     (0xBC \<le> r \<and> r \<le> 0xBE)"

definition IsLetter :: "tables \<Rightarrow> rune \<Rightarrow> bool" where
  "IsLetter T r = (if r \<le> MaxLatin1 then latin1Letter r else Letter T r)"

definition IsNumber :: "tables \<Rightarrow> rune \<Rightarrow> bool" where
  "IsNumber T r = (if r \<le> MaxLatin1 then latin1Number r else Number T r)"

definition IsDigit :: "tables \<Rightarrow> rune \<Rightarrow> bool" where
  "IsDigit T r = (if r \<le> MaxLatin1 then 0x30 \<le> r \<and> r \<le> 0x39 else Digit T r)"

text \<open>Range tables with nothing above Latin-1, for evaluating Latin-1 inputs.\<close>

definition latin1Only :: tables where
  "latin1Only = \<lparr>Letter = (\<lambda>r. False), Number = (\<lambda>r. False), Digit = (\<lambda>r. False)\<rparr>"

subsection \<open>Package strings\<close>

text \<open>\<open>Index\<close> and \<open>LastIndex\<close> return \<open>None\<close> where the Go functions return \<open>-1\<close>.\<close>

definition HasPrefix :: "string \<Rightarrow> string \<Rightarrow> bool" where
  "HasPrefix s prefix \<longleftrightarrow> take (length prefix) s = prefix"

definition HasSuffix :: "string \<Rightarrow> string \<Rightarrow> bool" where
  "HasSuffix s suffix \<longleftrightarrow>
     length suffix \<le> length s \<and> drop (length s - length suffix) s = suffix"

fun Index :: "string \<Rightarrow> string \<Rightarrow> nat option" where
  "Index [] substr = (if substr = [] then Some 0 else None)"
| "Index (c # s) substr =
     (if HasPrefix (c # s) substr then Some 0 else map_option Suc (Index s substr))"

fun LastIndex :: "string \<Rightarrow> string \<Rightarrow> nat option" where
  "LastIndex [] substr = (if substr = [] then Some 0 else None)"
| "LastIndex (c # s) substr =
     (case LastIndex s substr of
        Some i \<Rightarrow> Some (Suc i)
      | None \<Rightarrow> if HasPrefix (c # s) substr then Some 0 else None)"

definition Contains :: "string \<Rightarrow> string \<Rightarrow> bool" where
  "Contains s substr \<longleftrightarrow> Index s substr \<noteq> None"

definition Cut :: "string \<Rightarrow> string \<Rightarrow> string \<times> string \<times> bool" where
  "Cut s sep =
     (case Index s sep of
        Some i \<Rightarrow> (take i s, drop (i + length sep) s, True)
      | None \<Rightarrow> (s, [], False))"

text \<open>
  \<open>Count\<close> and \<open>Split\<close> for a separator of one byte, the only kind they are called
  with here (\<open>"?"\<close>, \<open>"&"\<close>, \<open>"."\<close> and \<open>"/"\<close>).
\<close>

definition Count :: "string \<Rightarrow> char \<Rightarrow> nat" where
  "Count s sep = length (filter (\<lambda>c. c = sep) s)"

fun Split :: "string \<Rightarrow> char \<Rightarrow> string list" where
  "Split [] sep = [[]]"
| "Split (c # s) sep =
     (if c = sep then [] # Split s sep
      else (case Split s sep of part # parts \<Rightarrow> (c # part) # parts | [] \<Rightarrow> [[c]]))"

text \<open>\<open>ToLower\<close> on the bytes of an ASCII string (it is applied to a URL scheme).\<close>

definition inRange :: "char \<Rightarrow> char \<Rightarrow> char \<Rightarrow> bool" where
  "inRange lo hi c \<longleftrightarrow> (of_char lo :: nat) \<le> of_char c \<and> (of_char c :: nat) \<le> of_char hi"

definition ToLower :: "string \<Rightarrow> string" where
  "ToLower s =
     map (\<lambda>c. if inRange CHR ''A'' CHR ''Z'' c then char_of (of_char c + (32::nat)) else c) s"

subsection \<open>Package bufio: the scanner of standard input\<close>





section \<open>subTokenize\<close>

text \<open>
  The loop of \<open>subTokenize\<close> over the runes of its input: \<open>out\<close> is the content of the
  string builder, and the result is the list of tokens sent on the channel, in the
  order of the sends.
\<close>

fun subTokenize_loop :: "tables \<Rightarrow> TokenType \<Rightarrow> rune list \<Rightarrow> string \<Rightarrow> Token list" where
  "subTokenize_loop T tokenType [] out =
     (if length out > 0 then [\<lparr>Value = out, Type = tokenType\<rparr>] else [])"
| "subTokenize_loop T tokenType (r # rs) out =
     (if IsLetter T r \<or> IsNumber T r then subTokenize_loop T tokenType rs (out @ EncodeRune r)
      else if length out > 0 then
        \<lparr>Value = out, Type = tokenType\<rparr> # subTokenize_loop T tokenType rs []
      else subTokenize_loop T tokenType rs [])"

definition subTokenize :: "tables \<Rightarrow> string \<Rightarrow> TokenType \<Rightarrow> Token list" where
  "subTokenize T input tokenType = subTokenize_loop T tokenType (runes input) []"

section \<open>processToken\<close>

text \<open>
  The package-level variables that \<open>processToken\<close> reads: the flags, and the compiled
  regular expression (\<open>None\<close> is the nil pointer; a compiled expression is represented
  by its \<open>MatchString\<close>).
\<close>

record config =
  minlength :: int
  maxlength :: int
  alphaNumOnly :: bool
  filterString :: string
  regex :: "(string \<Rightarrow> bool) option"

text \<open>
  The state that \<open>processToken\<close> changes: the map \<open>lastToken\<close>, and the lines printed
  so far to standard output and to the two files (\<open>None\<close> is a nil file).
\<close>

record state =
  lastToken :: "string \<rightharpoonup> bool"
  stdout :: "string list"
  pathFile :: "string list option"
  paramFile :: "string list option"

definition LoadOrStore :: "(string \<rightharpoonup> bool) \<Rightarrow> string \<Rightarrow> bool \<Rightarrow> (bool \<times> bool) \<times> (string \<rightharpoonup> bool)" where
  "LoadOrStore m key v =
     (case m key of
        Some actual \<Rightarrow> ((actual, True), m)
      | None \<Rightarrow> ((v, False), m(key \<mapsto> v)))"

text \<open>The place where \<open>processToken\<close> returns.\<close>

datatype exit =
  Duplicate | TooShortOrLong | NoSubstring | NoMatch | NotAlphaNum
  | ToPathFile | ToParamFile | ToStdout

text \<open>The flags \<open>hasLetter\<close> and \<open>hasNumber\<close> after the loop over the runes of \<open>str\<close>.\<close>

definition letterNumberFlags :: "tables \<Rightarrow> string \<Rightarrow> bool \<times> bool" where
  "letterNumberFlags T str =
     foldl (\<lambda>(hasLetter, hasNumber) r.
              (if IsLetter T r then True else hasLetter,
               if IsNumber T r then True else hasNumber))
           (False, False) (runes str)"

definition processToken :: "tables \<Rightarrow> config \<Rightarrow> Token \<Rightarrow> state \<Rightarrow> exit \<times> state" where
  "processToken T c token st =
    (let str = Value token;
         ((actual, loaded), m) = LoadOrStore (lastToken st) str True;
         st1 = st\<lparr>lastToken := m\<rparr>
     in
     if loaded then (Duplicate, st1)
     else if int (length str) < minlength c \<or> int (length str) > maxlength c
       then (TooShortOrLong, st1)
     else if filterString c \<noteq> [] \<and> \<not> Contains str (filterString c)
       then (NoSubstring, st1)
     else if (case regex c of None \<Rightarrow> False | Some re \<Rightarrow> \<not> re str)
       then (NoMatch, st1)
     else if alphaNumOnly c \<and>
             (case letterNumberFlags T str of (hasLetter, hasNumber) \<Rightarrow> \<not> hasLetter \<or> \<not> hasNumber)
       then (NotAlphaNum, st1)
     else
       (case (Type token, pathFile st1, paramFile st1) of
          (Path, Some ls, _) \<Rightarrow> (ToPathFile, st1\<lparr>pathFile := Some (ls @ [str])\<rparr>)
        | (ParamName, _, Some ls) \<Rightarrow> (ToParamFile, st1\<lparr>paramFile := Some (ls @ [str])\<rparr>)
        | _ \<Rightarrow> (ToStdout, st1\<lparr>stdout := stdout st1 @ [str]\<rparr>)))"

text \<open>
  The worker goroutine: \<open>for token := range tokens\<close> receives the tokens in the order
  they were sent and calls \<open>processToken\<close> on each.  The result is the list of exits
  taken, one per token, and the final state.
\<close>

fun worker :: "tables \<Rightarrow> config \<Rightarrow> Token list \<Rightarrow> state \<Rightarrow> exit list \<times> state" where
  "worker T c [] st = ([], st)"
| "worker T c (token # tokens) st =
     (case processToken T c token st of
        (e, st1) \<Rightarrow> (case worker T c tokens st1 of (es, st2) \<Rightarrow> (e # es, st2)))"

text \<open>The state when \<open>main\<close> starts the worker: nothing seen, nothing printed.\<close>

definition initial :: "bool \<Rightarrow> bool \<Rightarrow> state" where
  "initial withPathFile withParamFile =
     \<lparr>lastToken = Map.empty, stdout = [],
      pathFile = (if withPathFile then Some [] else None),
      paramFile = (if withParamFile then Some [] else None)\<rparr>"

section \<open>Package net/url, as far as main.go uses it\<close>

text \<open>
  \<open>main\<close> calls \<open>url.Parse\<close>, \<open>URL.Hostname\<close> and \<open>url.ParseQuery\<close> and reads the
  fields \<open>Scheme\<close>, \<open>Host\<close>, \<open>Path\<close>, \<open>RawQuery\<close> and \<open>Fragment\<close> of the result.  The
  record keeps these fields and \<open>Opaque\<close> and \<open>User\<close> (a user name and an optional
  password); the fields \<open>Path\<close> and \<open>Fragment\<close> are named \<open>URL_Path\<close> and
  \<open>URL_Fragment\<close> here, apart from the token types of the same names.
\<close>

record URL =
  Scheme :: string
  Opaque :: string
  User :: "(string \<times> string option) option"
  Host :: string
  URL_Path :: string
  RawQuery :: string
  URL_Fragment :: string

definition emptyURL :: URL where
  "emptyURL = \<lparr>Scheme = [], Opaque = [], User = None, Host = [], URL_Path = [],
     RawQuery = [], URL_Fragment = []\<rparr>"

text \<open>
  \<open>url.Values\<close> is a map from a key to the list of its values.  It is kept as the list
  of its entries, with distinct keys; the order of the list has no meaning in Go.
\<close>

type_synonym Values = "(string \<times> string list) list"

datatype error =
  InvalidControlCharacter | EmptyURL | MissingProtocolScheme | InvalidURIForRequest
  | ColonInFirstPathSegment | MissingBracket | InvalidPort string | InvalidUserinfo
  | EscapeError string | InvalidHostError string | InvalidSemicolonSeparator
  | InvalidIPLiteral | TooManyQueryParameters

text \<open>
  The two functions of the package that take a line or a query string.  The development
  is parametric in them; \<open>goURLWith\<close> and \<open>goURL\<close> below are the instances that follow the
  Go implementation (\<open>net/url/url.go\<close>: \<open>Parse\<close>, \<open>parse\<close>, \<open>getScheme\<close>,
  \<open>parseAuthority\<close>, \<open>parseHost\<close>, \<open>unescape\<close>, \<open>ParseQuery\<close>).  The hints \<open>RawPath\<close>,
  \<open>RawFragment\<close>, \<open>ForceQuery\<close> and \<open>OmitHost\<close>, which \<open>main\<close> never reads, are left out.
\<close>

record neturl =
  Parse :: "string \<Rightarrow> error + URL"
  ParseQuery :: "string \<Rightarrow> Values \<times> error option"

subsection \<open>\<open>URL.Hostname\<close>\<close>

definition validOptionalPort :: "string \<Rightarrow> bool" where
  "validOptionalPort port =
     (case port of
        [] \<Rightarrow> True
      | c # ds \<Rightarrow> c = CHR '':'' \<and> list_all (\<lambda>b. inRange CHR ''0'' CHR ''9'' b) ds)"

definition splitHostPort :: "string \<Rightarrow> string \<times> string" where
  "splitHostPort hostPort =
     (let (host, port) =
            (case LastIndex hostPort '':'' of
               Some colon \<Rightarrow>
                 if validOptionalPort (drop colon hostPort)
                 then (take colon hostPort, drop (colon + 1) hostPort)
                 else (hostPort, [])
             | None \<Rightarrow> (hostPort, []))
      in if HasPrefix host ''['' \<and> HasSuffix host '']''
         then (take (length host - 2) (drop 1 host), port)
         else (host, port))"

definition Hostname :: "URL \<Rightarrow> string" where
  "Hostname u = fst (splitHostPort (Host u))"

subsection \<open>\<open>unescape\<close>\<close>

datatype encoding =
  encodePath | encodePathSegment | encodeHost | encodeZone | encodeUserPassword
  | encodeQueryComponent | encodeFragment

definition ishex :: "char \<Rightarrow> bool" where
  "ishex c \<longleftrightarrow>
     inRange CHR ''0'' CHR ''9'' c \<or> inRange CHR ''a'' CHR ''f'' c \<or> inRange CHR ''A'' CHR ''F'' c"

definition unhex :: "char \<Rightarrow> nat" where
  "unhex c =
     (if inRange CHR ''0'' CHR ''9'' c then of_char c - of_char CHR ''0''
      else if inRange CHR ''a'' CHR ''f'' c then of_char c - of_char CHR ''a'' + 10
      else if inRange CHR ''A'' CHR ''F'' c then of_char c - of_char CHR ''A'' + 10
      else 0)"

text \<open>\<open>shouldEscape c encodeHost\<close>, the only mode \<open>unescape\<close> asks about.\<close>

definition shouldEscapeHost :: "char \<Rightarrow> bool" where
  "shouldEscapeHost c \<longleftrightarrow>
     \<not> (inRange CHR ''a'' CHR ''z'' c \<or> inRange CHR ''A'' CHR ''Z'' c \<or> inRange CHR ''0'' CHR ''9'' c
        \<or> c \<in> set ''!$&()*+,;=:[]<>'' \<or> c = CHR 0x27 \<or> c = CHR 0x22
        \<or> c \<in> set ''-_.~'')"

text \<open>
  The first loop of \<open>unescape\<close>: it counts the escapes, notes a \<open>+\<close> in a query
  component, and rejects a malformed escape or, in a host, a byte that may not stand
  there.
\<close>

fun unescape_scan :: "encoding \<Rightarrow> string \<Rightarrow> nat \<Rightarrow> bool \<Rightarrow> error + (nat \<times> bool)" where
  "unescape_scan mode [] n hasPlus = Inr (n, hasPlus)"
| "unescape_scan mode (c # s) n hasPlus =
     (if c = CHR ''%'' then
        (case s of
           h1 # h2 # rest \<Rightarrow>
             if \<not> ishex h1 \<or> \<not> ishex h2 then Inl (EscapeError (take 3 (c # s)))
             else if mode = encodeHost \<and> unhex h1 < 8 \<and> [c, h1, h2] \<noteq> ''%25''
               then Inl (EscapeError [c, h1, h2])
             else if mode = encodeZone \<and> [c, h1, h2] \<noteq> ''%25''
                     \<and> unhex h1 * 16 + unhex h2 \<noteq> of_char CHR '' ''
                     \<and> shouldEscapeHost (char_of (unhex h1 * 16 + unhex h2))
               then Inl (EscapeError [c, h1, h2])
             else unescape_scan mode rest (n + 1) hasPlus
         | _ \<Rightarrow> Inl (EscapeError (take 3 (c # s))))
      else if c = CHR ''+'' then unescape_scan mode s n (mode = encodeQueryComponent)
      else if (mode = encodeHost \<or> mode = encodeZone) \<and> (of_char c :: nat) < 0x80
              \<and> shouldEscapeHost c
        then Inl (InvalidHostError [c])
      else unescape_scan mode s n hasPlus)"

text \<open>The second loop: the unescaped string.\<close>

fun unescape_build :: "encoding \<Rightarrow> string \<Rightarrow> string" where
  "unescape_build mode [] = []"
| "unescape_build mode (c # s) =
     (if c = CHR ''%'' then
        (case s of
           h1 # h2 # rest \<Rightarrow> char_of (unhex h1 * 16 + unhex h2) # unescape_build mode rest
         | _ \<Rightarrow> [])
      else if c = CHR ''+'' then
        (if mode = encodeQueryComponent then CHR '' '' else CHR ''+'') # unescape_build mode s
      else c # unescape_build mode s)"

definition unescape :: "string \<Rightarrow> encoding \<Rightarrow> error + string" where
  "unescape s mode =
     (case unescape_scan mode s 0 False of
        Inl err \<Rightarrow> Inl err
      | Inr (n, hasPlus) \<Rightarrow> if n = 0 \<and> \<not> hasPlus then Inr s else Inr (unescape_build mode s))"

definition QueryUnescape :: "string \<Rightarrow> error + string" where
  "QueryUnescape s = unescape s encodeQueryComponent"

subsection \<open>\<open>url.Parse\<close>\<close>

definition stringContainsCTLByte :: "string \<Rightarrow> bool" where
  "stringContainsCTLByte s \<longleftrightarrow>
     list_ex (\<lambda>b. (of_char b :: nat) < of_char CHR '' '' \<or> (of_char b :: nat) = 0x7F) s"

text \<open>
  The loop of \<open>getScheme\<close>: \<open>i\<close> is the index of the byte looked at, \<open>cs\<close> the bytes
  from there on.
\<close>

fun getScheme_loop :: "string \<Rightarrow> nat \<Rightarrow> string \<Rightarrow> error + (string \<times> string)" where
  "getScheme_loop rawURL i [] = Inr ([], rawURL)"
| "getScheme_loop rawURL i (c # cs) =
     (if inRange CHR ''a'' CHR ''z'' c \<or> inRange CHR ''A'' CHR ''Z'' c
        then getScheme_loop rawURL (i + 1) cs
      else if inRange CHR ''0'' CHR ''9'' c \<or> c = CHR ''+'' \<or> c = CHR ''-'' \<or> c = CHR ''.''
        then (if i = 0 then Inr ([], rawURL) else getScheme_loop rawURL (i + 1) cs)
      else if c = CHR '':''
        then (if i = 0 then Inl MissingProtocolScheme
              else Inr (take i rawURL, drop (i + 1) rawURL))
      else Inr ([], rawURL))"

definition getScheme :: "string \<Rightarrow> error + (string \<times> string)" where
  "getScheme rawURL = getScheme_loop rawURL 0 rawURL"

definition validUserinfo :: "string \<Rightarrow> bool" where
  "validUserinfo s =
     list_all (\<lambda>r. (of_char CHR ''A'' \<le> r \<and> r \<le> of_char CHR ''Z'')
                 \<or> (of_char CHR ''a'' \<le> r \<and> r \<le> of_char CHR ''z'')
                 \<or> (of_char CHR ''0'' \<le> r \<and> r \<le> of_char CHR ''9'')
                 \<or> r \<in> of_char ` set ''-._:~!$&()*+,;=%@'' \<or> r = 0x27)
       (runes s)"

text \<open>
  \<open>parseHost\<close> takes the part of the authority after the user information.  A host that
  contains \<open>[\<close> is read as an IP literal: the function checks the closing bracket and the
  port after it and has package \<open>net/netip\<close> parse the address between the brackets.  That
  package is not modelled: what \<open>parseHost\<close> returns for such a host is the parameter
  \<open>ipLiteral\<close>.  In any other host a colon starts the port, which has to be a valid
  optional port, and the host is unescaped.
\<close>

definition parseHost :: "(string \<Rightarrow> error + string) \<Rightarrow> string \<Rightarrow> error + string" where
  "parseHost ipLiteral host =
     (if LastIndex host ''['' \<noteq> None then ipLiteral host
      else
        (case Index host '':'' of
           Some i \<Rightarrow>
             if \<not> validOptionalPort (drop i host) then Inl (InvalidPort (drop i host))
             else unescape host encodeHost
         | None \<Rightarrow> unescape host encodeHost))"

definition parseAuthority ::
  "(string \<Rightarrow> error + string) \<Rightarrow> string \<Rightarrow> error + ((string \<times> string option) option \<times> string)" where
  "parseAuthority ipLiteral authority =
     (let i = LastIndex authority ''@'' in
      case (case i of None \<Rightarrow> parseHost ipLiteral authority
                    | Some j \<Rightarrow> parseHost ipLiteral (drop (j + 1) authority)) of
        Inl err \<Rightarrow> Inl err
      | Inr host \<Rightarrow>
         (case i of
            None \<Rightarrow> Inr (None, host)
          | Some j \<Rightarrow>
              let userinfo = take j authority in
              if \<not> validUserinfo userinfo then Inl InvalidUserinfo
              else if \<not> Contains userinfo '':'' then
                (case unescape userinfo encodeUserPassword of
                   Inl err \<Rightarrow> Inl err
                 | Inr username \<Rightarrow> Inr (Some (username, None), host))
              else
                (case Cut userinfo '':'' of
                   (username0, password0, found) \<Rightarrow>
                     (case unescape username0 encodeUserPassword of
                        Inl err \<Rightarrow> Inl err
                      | Inr username \<Rightarrow>
                         (case unescape password0 encodeUserPassword of
                            Inl err \<Rightarrow> Inl err
                          | Inr password \<Rightarrow> Inr (Some (username, Some password), host))))))"

text \<open>\<open>setPath\<close> and \<open>setFragment\<close>, without the hints \<open>RawPath\<close> and \<open>RawFragment\<close>.\<close>

definition setPath :: "URL \<Rightarrow> string \<Rightarrow> error + URL" where
  "setPath u p =
     (case unescape p encodePath of
        Inl err \<Rightarrow> Inl err
      | Inr path \<Rightarrow> Inr (u\<lparr>URL_Path := path\<rparr>))"

definition setFragment :: "URL \<Rightarrow> string \<Rightarrow> error + URL" where
  "setFragment u f =
     (case unescape f encodeFragment of
        Inl err \<Rightarrow> Inl err
      | Inr frag \<Rightarrow> Inr (u\<lparr>URL_Fragment := frag\<rparr>))"

text \<open>
  \<open>parse\<close> and \<open>Parse\<close>.  The function that \<open>parse\<close> calls on the authority, which is
  \<open>parseAuthority\<close>, is passed as the argument \<open>authorityParser\<close>, so that what is proved
  of \<open>parse\<close> for every such function does not depend on how the authority is parsed.
\<close>

definition parse ::
  "(string \<Rightarrow> error + ((string \<times> string option) option \<times> string)) \<Rightarrow> string \<Rightarrow> bool \<Rightarrow> error + URL" where
  "parse authorityParser rawURL viaRequest =
     (if stringContainsCTLByte rawURL then Inl InvalidControlCharacter
      else if rawURL = [] \<and> viaRequest then Inl EmptyURL
      else if rawURL = ''*'' then Inr (emptyURL\<lparr>URL_Path := ''*''\<rparr>)
      else
        (case getScheme rawURL of
           Inl err \<Rightarrow> Inl err
         | Inr (scheme0, rest0) \<Rightarrow>
             let scheme = ToLower scheme0;
                 (rest, rawQuery) =
                   (if HasSuffix rest0 ''?'' \<and> Count rest0 CHR ''?'' = 1
                    then (take (length rest0 - 1) rest0, [])
                    else (case Cut rest0 ''?'' of (before, after, found) \<Rightarrow> (before, after)));
                 url = emptyURL\<lparr>Scheme := scheme, RawQuery := rawQuery\<rparr>
             in
             if \<not> HasPrefix rest ''/'' \<and> scheme \<noteq> [] then Inr (url\<lparr>Opaque := rest\<rparr>)
             else if \<not> HasPrefix rest ''/'' \<and> viaRequest then Inl InvalidURIForRequest
             else if \<not> HasPrefix rest ''/'' \<and> Contains (fst (Cut rest ''/'')) '':''
               then Inl ColonInFirstPathSegment
             else if (scheme \<noteq> [] \<or> (\<not> viaRequest \<and> \<not> HasPrefix rest ''///''))
                     \<and> HasPrefix rest ''//''
               then
                 (let authority0 = drop 2 rest;
                      (authority, rest') =
                        (case Index authority0 ''/'' of
                           Some i \<Rightarrow> (take i authority0, drop i authority0)
                         | None \<Rightarrow> (authority0, []))
                  in case authorityParser authority of
                       Inl err \<Rightarrow> Inl err
                     | Inr (user, host) \<Rightarrow> setPath (url\<lparr>User := user, Host := host\<rparr>) rest')
             else setPath url rest))"

definition url_Parse ::
  "(string \<Rightarrow> error + ((string \<times> string option) option \<times> string)) \<Rightarrow> string \<Rightarrow> error + URL" where
  "url_Parse authorityParser rawURL =
     (case Cut rawURL ''#'' of
        (u, frag, found) \<Rightarrow>
          (case parse authorityParser u False of
             Inl err \<Rightarrow> Inl err
           | Inr url \<Rightarrow> if frag = [] then Inr url else setFragment url frag))"

subsection \<open>\<open>url.ParseQuery\<close>\<close>

text \<open>\<open>m[key] = append(m[key], value)\<close> on the entries of the map.\<close>

fun Values_append :: "Values \<Rightarrow> string \<Rightarrow> string \<Rightarrow> Values" where
  "Values_append [] key v = [(key, [v])]"
| "Values_append ((k, vs) # m) key v =
     (if k = key then (k, vs @ [v]) # m else (k, vs) # Values_append m key v)"

function parseQuery :: "Values \<Rightarrow> error option \<Rightarrow> string \<Rightarrow> Values \<times> error option" where
  "parseQuery m err [] = (m, err)"
| "parseQuery m err (c # q) =
     (let key = fst (Cut (c # q) ''&'');
          query = fst (snd (Cut (c # q) ''&''))
      in
      if Contains key '';'' then parseQuery m (Some InvalidSemicolonSeparator) query
      else if key = [] then parseQuery m err query
      else
        (case QueryUnescape (fst (Cut key ''='')) of
           Inl err1 \<Rightarrow> parseQuery m (if err = None then Some err1 else err) query
         | Inr key' \<Rightarrow>
            (case QueryUnescape (fst (snd (Cut key ''=''))) of
               Inl err1 \<Rightarrow> parseQuery m (if err = None then Some err1 else err) query
             | Inr v \<Rightarrow> parseQuery (Values_append m key' v) err query)))"
  by pat_completeness auto
termination
  by (relation "measure (\<lambda>(m, err, query). length query)") (auto simp add: Cut_def split: option.splits)

text \<open>
  \<open>ParseQuery\<close> refuses a query of more than \<open>urlmaxqueryparams\<close> parameters, counted as
  the separators \<open>&\<close> plus one, before it parses anything; the map it returns is then empty.
\<close>

definition urlmaxqueryparams :: nat where
  "urlmaxqueryparams = 10000"

definition url_ParseQuery :: "string \<Rightarrow> Values \<times> error option" where
  "url_ParseQuery query =
     (if Count query CHR ''&'' + 1 > urlmaxqueryparams then ([], Some TooManyQueryParameters)
      else parseQuery [] None query)"

subsection \<open>The instances\<close>

text \<open>
  \<open>goURLWith\<close> is the package with a given function for the authority.  \<open>goURL\<close> is the
  package with \<open>parseAuthority\<close> where no address in brackets is accepted; it is used to
  evaluate lines without brackets, on which \<open>parseHost\<close> never reaches its parameter.
\<close>

definition goURLWith ::
  "(string \<Rightarrow> error + ((string \<times> string option) option \<times> string)) \<Rightarrow> neturl" where
  "goURLWith authorityParser = \<lparr>Parse = url_Parse authorityParser, ParseQuery = url_ParseQuery\<rparr>"

definition noIPLiteral :: "string \<Rightarrow> error + string" where
  "noIPLiteral host = Inl InvalidIPLiteral"

definition goURL :: neturl where
  "goURL = goURLWith (parseAuthority noIPLiteral)"

section \<open>The loop of main over the input lines\<close>

text \<open>
  The four parts of the loop body for a line that is a URL.  The order in which
  \<open>for key, values := range query\<close> visits the entries of the map is chosen by the Go
  runtime and may change from one loop to the next: \<open>order\<close> is that choice, a function
  that rearranges the entries.
\<close>

definition rangeOrder :: "(Values \<Rightarrow> Values) \<Rightarrow> bool" where
  "rangeOrder order \<longleftrightarrow> (\<forall>query. mset (order query) = mset query)"

definition hostnameTokens :: "tables \<Rightarrow> URL \<Rightarrow> Token list" where
  "hostnameTokens T u =
     concat (map (\<lambda>part. subTokenize T part Subdomain) (Split (Hostname u) CHR ''.''))"

definition pathTokens :: "tables \<Rightarrow> URL \<Rightarrow> Token list" where
  "pathTokens T u =
     concat (map (\<lambda>part. subTokenize T part Path) (Split (URL_Path u) CHR ''/''))"

definition keyTokens :: "tables \<Rightarrow> string \<times> string list \<Rightarrow> Token list" where
  "keyTokens T entry =
     (case entry of
        (key, values) \<Rightarrow>
          subTokenize T key ParamName
          @ concat (map (\<lambda>v. subTokenize T v ParamValue) values))"

definition queryTokens :: "neturl \<Rightarrow> tables \<Rightarrow> (Values \<Rightarrow> Values) \<Rightarrow> URL \<Rightarrow> Token list" where
  "queryTokens L T order u =
     (case ParseQuery L (RawQuery u) of
        (query, None) \<Rightarrow> concat (map (keyTokens T) (order query))
      | (query, Some err) \<Rightarrow> [])"

definition fragmentTokens :: "tables \<Rightarrow> URL \<Rightarrow> Token list" where
  "fragmentTokens T u = subTokenize T (URL_Fragment u) Fragment"

definition urlTokens :: "neturl \<Rightarrow> tables \<Rightarrow> (Values \<Rightarrow> Values) \<Rightarrow> URL \<Rightarrow> Token list" where
  "urlTokens L T order u =
     hostnameTokens T u @ pathTokens T u @ queryTokens L T order u @ fragmentTokens T u"

text \<open>The tokens that one pass of the loop body sends, in the order of the sends.\<close>

definition lineTokens :: "neturl \<Rightarrow> tables \<Rightarrow> (Values \<Rightarrow> Values) \<Rightarrow> string \<Rightarrow> Token list" where
  "lineTokens L T order line =
     (case Parse L line of
        Inl err \<Rightarrow> subTokenize T line Generic
      | Inr u \<Rightarrow>
          if Scheme u = [] \<or> Host u = [] then subTokenize T line Generic
          else urlTokens L T order u)"

text \<open>
  The scanner loop: \<open>orders n\<close> is the iteration order the runtime takes at line
  number \<open>n\<close>.
\<close>

fun producer :: "neturl \<Rightarrow> tables \<Rightarrow> (nat \<Rightarrow> Values \<Rightarrow> Values) \<Rightarrow> nat \<Rightarrow> string list \<Rightarrow> Token list" where
  "producer L T orders n [] = []"
| "producer L T orders n (line # lines) =
     lineTokens L T (orders n) line @ producer L T orders (Suc n) lines"

text \<open>
  The whole of \<open>main\<close> after the flags are parsed and the files created: the worker
  receives what the scanner loop sends, in the same order (one sender, one receiver, one
  channel).
\<close>

definition run :: "neturl \<Rightarrow> tables \<Rightarrow> config \<Rightarrow> bool \<Rightarrow> bool \<Rightarrow> (nat \<Rightarrow> Values \<Rightarrow> Values) \<Rightarrow> string list \<Rightarrow> exit list \<times> state" where
  "run L T c withPathFile withParamFile orders lines =
     worker T c (producer L T orders 0 lines) (initial withPathFile withParamFile)"


section \<open>Notions used to state the properties\<close>

text \<open>
  The test of \<open>subTokenize\<close> on a rune (\<open>unicode.IsLetter(r) || unicode.IsNumber(r)\<close>): a
  letter or a number, the Unicode categories L and N.
\<close>

definition letterOrNumber :: "tables \<Rightarrow> rune \<Rightarrow> bool" where
  "letterOrNumber T r \<longleftrightarrow> IsLetter T r \<or> IsNumber T r"

text \<open>A letter or a digit: the categories L and Nd.\<close>

definition letterOrDigit :: "tables \<Rightarrow> rune \<Rightarrow> bool" where
  "letterOrDigit T r \<longleftrightarrow> IsLetter T r \<or> IsDigit T r"

text \<open>The UTF-8 encoding of a list of runes.\<close>

definition utf8 :: "rune list \<Rightarrow> string" where
  "utf8 rs = concat (map EncodeRune rs)"

text \<open>A Unicode scalar value: at most \<open>U+10FFFF\<close> and no surrogate.\<close>

definition validRune :: "rune \<Rightarrow> bool" where
  "validRune r \<longleftrightarrow> r \<le> 0x10FFFF \<and> \<not> (0xD800 \<le> r \<and> r \<le> 0xDFFF)"

text \<open>
  The maximal runs of elements satisfying \<open>P\<close>: the list is cut at every element that does
  not satisfy \<open>P\<close> (\<open>splitRuns\<close>), and the empty pieces are dropped.
\<close>

fun splitRuns :: "('a \<Rightarrow> bool) \<Rightarrow> 'a list \<Rightarrow> 'a list list" where
  "splitRuns P [] = [[]]"
| "splitRuns P (x # xs) =
     (if P x then (case splitRuns P xs of r # rest \<Rightarrow> (x # r) # rest | [] \<Rightarrow> [[x]])
      else [] # splitRuns P xs)"

definition maximalRuns :: "('a \<Rightarrow> bool) \<Rightarrow> 'a list \<Rightarrow> 'a list list" where
  "maximalRuns P xs = filter (\<lambda>run. run \<noteq> []) (splitRuns P xs)"

text \<open>Everything written so far, to any of the three sinks.\<close>

definition sinkLines :: "string list option \<Rightarrow> string list" where
  "sinkLines f = (case f of None \<Rightarrow> [] | Some ls \<Rightarrow> ls)"



text \<open>
  The filter chain as the flags describe it: the length bounds, the substring, the
  regular expression, and at least one letter and one number; a filter that is not
  configured accepts.
\<close>

definition passesFilters :: "tables \<Rightarrow> config \<Rightarrow> string \<Rightarrow> bool" where
  "passesFilters T c str \<longleftrightarrow>
     minlength c \<le> int (length str) \<and> int (length str) \<le> maxlength c
     \<and> (filterString c = [] \<or> Contains str (filterString c))
     \<and> (case regex c of None \<Rightarrow> True | Some re \<Rightarrow> re str)
     \<and> (alphaNumOnly c \<longrightarrow>
          list_ex (IsLetter T) (runes str) \<and> list_ex (IsNumber T) (runes str))"

text \<open>The sink a token is routed to: where its value is appended.\<close>

definition route :: "Token \<Rightarrow> state \<Rightarrow> state" where
  "route token st =
     (if Type token = Path \<and> pathFile st \<noteq> None
        then st\<lparr>pathFile := Some (sinkLines (pathFile st) @ [Value token])\<rparr>
      else if Type token = ParamName \<and> paramFile st \<noteq> None
        then st\<lparr>paramFile := Some (sinkLines (paramFile st) @ [Value token])\<rparr>
      else st\<lparr>stdout := stdout st @ [Value token]\<rparr>)"

text \<open>The classification of a line as a URL.\<close>

definition isURL :: "neturl \<Rightarrow> string \<Rightarrow> bool" where
  "isURL L line =
     (case Parse L line of
        Inl err \<Rightarrow> False
      | Inr u \<Rightarrow> Scheme u \<noteq> [] \<and> Host u \<noteq> [])"

text \<open>
  A line written from its parts: a scheme, \<open>://\<close>, an authority, a path, and optionally
  \<open>?\<close> with a raw query and \<open>#\<close> with a raw fragment.  A valid scheme starts with a letter
  and goes on with letters, digits, \<open>+\<close>, \<open>-\<close> and \<open>.\<close>.
\<close>

definition isSchemeByte :: "char \<Rightarrow> bool" where
  "isSchemeByte c \<longleftrightarrow>
     inRange CHR ''a'' CHR ''z'' c \<or> inRange CHR ''A'' CHR ''Z'' c \<or> inRange CHR ''0'' CHR ''9'' c
     \<or> c = CHR ''+'' \<or> c = CHR ''-'' \<or> c = CHR ''.''"

definition validScheme :: "string \<Rightarrow> bool" where
  "validScheme s \<longleftrightarrow>
     (case s of
        [] \<Rightarrow> False
      | c # cs \<Rightarrow> (inRange CHR ''a'' CHR ''z'' c \<or> inRange CHR ''A'' CHR ''Z'' c)
                 \<and> list_all isSchemeByte cs)"

definition assemble :: "string \<Rightarrow> string \<Rightarrow> string \<Rightarrow> string option \<Rightarrow> string option \<Rightarrow> string" where
  "assemble scheme authority path rawquery rawfragment =
     scheme @ ''://'' @ authority @ path
       @ (case rawquery of None \<Rightarrow> [] | Some q \<Rightarrow> CHR ''?'' # q)
       @ (case rawfragment of None \<Rightarrow> [] | Some f \<Rightarrow> CHR ''#'' # f)"

text \<open>
  The field \<open>Host\<close> written from a host and an optional port; a host without the brackets
  of an IP literal; a host that ends in a colon followed by digits only (none included),
  that is, in a port.
\<close>

definition hostPort :: "string \<Rightarrow> string option \<Rightarrow> string" where
  "hostPort h port = h @ (case port of None \<Rightarrow> [] | Some p \<Rightarrow> CHR '':'' # p)"



text \<open>What one pass of the loop of \<open>parseQuery\<close> does with one segment of the query.\<close>

definition queryStep :: "Values \<times> error option \<Rightarrow> string \<Rightarrow> Values \<times> error option" where
  "queryStep acc segment =
     (case acc of
        (m, err) \<Rightarrow>
          if Contains segment '';'' then (m, Some InvalidSemicolonSeparator)
          else if segment = [] then (m, err)
          else
            (case QueryUnescape (fst (Cut segment ''='')) of
               Inl err1 \<Rightarrow> (m, if err = None then Some err1 else err)
             | Inr key \<Rightarrow>
                (case QueryUnescape (fst (snd (Cut segment ''=''))) of
                   Inl err1 \<Rightarrow> (m, if err = None then Some err1 else err)
                 | Inr v \<Rightarrow> (Values_append m key v, err))))"

section \<open>UTF-8: decoding what was encoded\<close>

lemma dec1: "r \<le> 0x7F \<Longrightarrow> DecodeRuneInString (char_of r # rest) = (r, 1)"
  by (simp add: DecodeRuneInString_def)

lemma mod_shift: "(a::nat) < m \<Longrightarrow> (k * m + a) mod m = a"
  by simp

lemma byte_val: "(n::nat) < 256 \<Longrightarrow> (of_char (char_of n) :: nat) = n"
  by simp

lemma dec2:
  assumes "2 \<le> a" "a \<le> 31" "b < 64"
  shows "DecodeRuneInString (char_of (0xC0 + a) # char_of (0x80 + b) # rest) = (a * 64 + b, 2)"
proof -
  have s0: "(of_char (char_of (0xC0 + a)) :: nat) = 0xC0 + a" using assms by (intro byte_val) simp
  have s1: "(of_char (char_of (0x80 + b)) :: nat) = 0x80 + b" using assms by (intro byte_val) simp
  have m0: "(0xC0 + a) mod 0x20 = a" using assms mod_shift [of a 32 6] by simp
  have m1: "(0x80 + b) mod 0x40 = b" using assms mod_shift [of b 64 2] by simp
  show ?thesis
    using assms by (simp add: DecodeRuneInString_def Let_def s0 s1 m0 m1 del: of_char_of)
qed


lemma dec3:
  assumes "a \<le> 15" "b < 64" "c < 64" "a = 0 \<longrightarrow> 32 \<le> b" "a = 13 \<longrightarrow> b < 32"
  shows "DecodeRuneInString (char_of (0xE0 + a) # char_of (0x80 + b) # char_of (0x80 + c) # rest)
         = (a * 0x1000 + b * 0x40 + c, 3)"
proof -
  have s0: "(of_char (char_of (0xE0 + a)) :: nat) = 0xE0 + a" using assms by (intro byte_val) simp
  have s1: "(of_char (char_of (0x80 + b)) :: nat) = 0x80 + b" using assms by (intro byte_val) simp
  have s2: "(of_char (char_of (0x80 + c)) :: nat) = 0x80 + c" using assms by (intro byte_val) simp
  have m0: "(0xE0 + a) mod 0x10 = a" using assms mod_shift [of a 16 14] by simp
  have m1: "(0x80 + b) mod 0x40 = b" using assms mod_shift [of b 64 2] by simp
  have m2: "(0x80 + c) mod 0x40 = c" using assms mod_shift [of c 64 2] by simp
  show ?thesis
    using assms by (auto simp add: DecodeRuneInString_def Let_def s0 s1 s2 m0 m1 m2 simp del: of_char_of)
qed

lemma dec4:
  assumes "a \<le> 4" "b < 64" "c < 64" "d < 64" "a = 0 \<longrightarrow> 16 \<le> b" "a = 4 \<longrightarrow> b < 16"
  shows "DecodeRuneInString (char_of (0xF0 + a) # char_of (0x80 + b) # char_of (0x80 + c) # char_of (0x80 + d) # rest)
         = (a * 0x40000 + b * 0x1000 + c * 0x40 + d, 4)"
proof -
  have s0: "(of_char (char_of (0xF0 + a)) :: nat) = 0xF0 + a" using assms by (intro byte_val) simp
  have s1: "(of_char (char_of (0x80 + b)) :: nat) = 0x80 + b" using assms by (intro byte_val) simp
  have s2: "(of_char (char_of (0x80 + c)) :: nat) = 0x80 + c" using assms by (intro byte_val) simp
  have s3: "(of_char (char_of (0x80 + d)) :: nat) = 0x80 + d" using assms by (intro byte_val) simp
  have m0: "(0xF0 + a) mod 0x08 = a" using assms mod_shift [of a 8 30] by simp
  have m1: "(0x80 + b) mod 0x40 = b" using assms mod_shift [of b 64 2] by simp
  have m2: "(0x80 + c) mod 0x40 = c" using assms mod_shift [of c 64 2] by simp
  have m3: "(0x80 + d) mod 0x40 = d" using assms mod_shift [of d 64 2] by simp
  show ?thesis
    using assms by (auto simp add: DecodeRuneInString_def Let_def s0 s1 s2 s3 m0 m1 m2 m3 simp del: of_char_of)
qed


lemma digits64:
  fixes r :: nat
  shows "r = (r div 0x1000) * 0x1000 + ((r div 0x40) mod 0x40) * 0x40 + r mod 0x40"
proof -
  have a: "r = (r div 0x40) * 0x40 + r mod 0x40" by simp
  have b: "r div 0x40 = (r div 0x40 div 0x40) * 0x40 + (r div 0x40) mod 0x40" by simp
  have c: "r div 0x40 div 0x40 = r div 0x1000" by (simp add: div_mult2_eq [symmetric])
  define q where "q = r div 0x40"
  define d0 where "d0 = r mod 0x40"
  define d1 where "d1 = q mod 0x40"
  define q2 where "q2 = r div 0x1000"
  from a have a': "r = q * 0x40 + d0" by (simp only: q_def d0_def)
  from b c have b': "q = q2 * 0x40 + d1" by (simp only: q_def d1_def q2_def)
  from a' b' have "r = q2 * 0x1000 + d1 * 0x40 + d0" by simp
  then show ?thesis by (simp only: q_def d0_def d1_def q2_def)
qed

lemma Decode_Encode:
  assumes "validRune r"
  shows "DecodeRuneInString (EncodeRune r @ rest) = (r, length (EncodeRune r))"
proof -
  consider "r \<le> 0x7F" | "0x80 \<le> r" "r \<le> 0x7FF" | "0x800 \<le> r" "r \<le> 0xFFFF" | "0x10000 \<le> r"
    by linarith
  then show ?thesis
  proof cases
    case 1
    then show ?thesis by (simp add: EncodeRune_def dec1)
  next
    case 2
    define a where "a = r div 0x40"
    define b where "b = r mod 0x40"
    have eq: "r = a * 0x40 + b" by (simp add: a_def b_def)
    have bb: "b < 64" by (simp add: b_def)
    have "2 \<le> a" "a \<le> 31" using 2 eq bb by linarith+
    moreover have enc: "EncodeRune r = [char_of (0xC0 + a), char_of (0x80 + b)]"
      using 2 by (simp add: EncodeRune_def a_def b_def)
    ultimately show ?thesis
      using dec2 [of a b rest] bb eq by (simp add: enc)
  next
    case 3
    have v: "\<not> (0xD800 \<le> r \<and> r \<le> 0xDFFF)" using assms by (simp add: validRune_def)
    define a where "a = r div 0x1000"
    define b where "b = (r div 0x40) mod 0x40"
    define c where "c = r mod 0x40"
    have eq: "r = a * 0x1000 + b * 0x40 + c"
      unfolding a_def b_def c_def by (rule digits64)
    have bb: "b < 64" "c < 64" by (simp_all add: b_def c_def)
    have "a \<le> 15" "a = 0 \<longrightarrow> 32 \<le> b" "a = 13 \<longrightarrow> b < 32"
      using 3 v eq bb by linarith+
    moreover have enc: "EncodeRune r = [char_of (0xE0 + a), char_of (0x80 + b), char_of (0x80 + c)]"
      using 3 v by (auto simp add: EncodeRune_def a_def b_def c_def)
    ultimately show ?thesis
      using dec3 [of a b c rest] bb eq by (simp add: enc)
  next
    case 4
    have v: "r \<le> 0x10FFFF" using assms by (simp add: validRune_def)
    define q where "q = r div 0x40"
    define a where "a = r div 0x40000"
    define b where "b = (r div 0x1000) mod 0x40"
    define c where "c = (r div 0x40) mod 0x40"
    define d where "d = r mod 0x40"
    have e1: "r = (r div 0x1000) * 0x1000 + c * 0x40 + d"
      unfolding c_def d_def by (rule digits64)
    have e2: "r div 0x1000 = (r div 0x1000 div 0x40) * 0x40 + b" by (simp add: b_def)
    have e3: "r div 0x1000 div 0x40 = a" by (simp add: a_def div_mult2_eq [symmetric])
    define p where "p = r div 0x1000"
    have eq: "r = a * 0x40000 + b * 0x1000 + c * 0x40 + d"
      using e1 e2 e3 unfolding p_def [symmetric] by simp
    have bb: "b < 64" "c < 64" "d < 64" by (simp_all add: b_def c_def d_def)
    have "a \<le> 4" "a = 0 \<longrightarrow> 16 \<le> b" "a = 4 \<longrightarrow> b < 16"
      using 4 v eq bb by linarith+
    moreover have enc: "EncodeRune r =
        [char_of (0xF0 + a), char_of (0x80 + b), char_of (0x80 + c), char_of (0x80 + d)]"
      using 4 v by (auto simp add: EncodeRune_def a_def b_def c_def d_def)
    ultimately show ?thesis
      using dec4 [of a b c d rest] bb eq by (simp add: enc)
  qed
qed


lemma validRune_RuneError: "validRune RuneError"
  by (simp add: validRune_def RuneError_def)





lemma valid_low: "r < 0xD800 \<Longrightarrow> validRune r"
  by (simp add: validRune_def)

lemma valid_high: "0xDFFF < r \<Longrightarrow> r \<le> 0x10FFFF \<Longrightarrow> validRune r"
  by (simp add: validRune_def)

lemma v2:
  assumes "0xC2 \<le> s0" "s0 < 0xE0" "0x80 \<le> s1" "s1 \<le> 0xBF"
  shows "validRune ((s0 mod 0x20) * 0x40 + s1 mod 0x40)"
proof -
  obtain a where a: "s0 = 0xC0 + a" using assms(1) le_iff_add [of "0xC0" s0] by auto
  obtain b where b: "s1 = 0x80 + b" using assms(3) le_iff_add [of "0x80" s1] by auto
  have bd: "a < 32" "b < 64" using assms a b by simp_all
  have md: "s0 mod 0x20 = a" "s1 mod 0x40 = b"
    using bd mod_shift [of a 32 6] mod_shift [of b 64 2] by (simp_all add: a b)
  have "a * 0x40 + b < 0xD800" using bd by simp
  then show ?thesis unfolding md by (rule valid_low)
qed

lemma v3:
  assumes "0xE0 \<le> s0" "s0 < 0xF0" "0x80 \<le> s1" "s1 \<le> 0xBF" "s0 = 0xED \<longrightarrow> s1 \<le> 0x9F"
    "0x80 \<le> s2" "s2 \<le> 0xBF"
  shows "validRune ((s0 mod 0x10) * 0x1000 + (s1 mod 0x40) * 0x40 + s2 mod 0x40)"
proof -
  obtain a where a: "s0 = 0xE0 + a" using assms(1) le_iff_add [of "0xE0" s0] by auto
  obtain b where b: "s1 = 0x80 + b" using assms(3) le_iff_add [of "0x80" s1] by auto
  obtain c where c: "s2 = 0x80 + c" using assms(6) le_iff_add [of "0x80" s2] by auto
  have bd: "a < 16" "b < 64" "c < 64" "a = 13 \<longrightarrow> b < 32" using assms a b c by auto
  have md: "s0 mod 0x10 = a" "s1 mod 0x40 = b" "s2 mod 0x40 = c"
    using bd mod_shift [of a 16 14] mod_shift [of b 64 2] mod_shift [of c 64 2]
    by (simp_all add: a b c)
  have up: "a * 0x1000 + b * 0x40 + c \<le> 0x10FFFF" using bd by simp
  consider "a < 13" | "a = 13" | "13 < a" by linarith
  then show ?thesis
  proof cases
    case 1
    then have "a * 0x1000 + b * 0x40 + c < 0xD800" using bd by simp
    then show ?thesis unfolding md by (rule valid_low)
  next
    case 2
    then have "a * 0x1000 + b * 0x40 + c < 0xD800" using bd by simp
    then show ?thesis unfolding md by (rule valid_low)
  next
    case 3
    then have "0xDFFF < a * 0x1000 + b * 0x40 + c" using bd by simp
    then show ?thesis unfolding md using up by (rule valid_high)
  qed
qed

lemma v4:
  assumes "0xF0 \<le> s0" "s0 \<le> 0xF4" "0x80 \<le> s1" "s1 \<le> 0xBF" "s0 = 0xF0 \<longrightarrow> 0x90 \<le> s1"
    "s0 = 0xF4 \<longrightarrow> s1 \<le> 0x8F" "0x80 \<le> s2" "s2 \<le> 0xBF" "0x80 \<le> s3" "s3 \<le> 0xBF"
  shows "validRune ((s0 mod 0x08) * 0x40000 + (s1 mod 0x40) * 0x1000 + (s2 mod 0x40) * 0x40 + s3 mod 0x40)"
proof -
  obtain a where a: "s0 = 0xF0 + a" using assms(1) le_iff_add [of "0xF0" s0] by auto
  obtain b where b: "s1 = 0x80 + b" using assms(3) le_iff_add [of "0x80" s1] by auto
  obtain c where c: "s2 = 0x80 + c" using assms(7) le_iff_add [of "0x80" s2] by auto
  obtain d where d: "s3 = 0x80 + d" using assms(9) le_iff_add [of "0x80" s3] by auto
  have bd: "a \<le> 4" "b < 64" "c < 64" "d < 64" "a = 0 \<longrightarrow> 16 \<le> b" "a = 4 \<longrightarrow> b < 16"
    using assms a b c d by auto
  have md: "s0 mod 0x08 = a" "s1 mod 0x40 = b" "s2 mod 0x40 = c" "s3 mod 0x40 = d"
    using bd mod_shift [of a 8 30] mod_shift [of b 64 2] mod_shift [of c 64 2] mod_shift [of d 64 2]
    by (simp_all add: a b c d)
  consider "a = 0" | "0 < a" "a < 4" | "a = 4" using bd(1) by linarith
  then have "0xDFFF < a * 0x40000 + b * 0x1000 + c * 0x40 + d
     \<and> a * 0x40000 + b * 0x1000 + c * 0x40 + d \<le> 0x10FFFF"
    using bd by cases simp_all
  then show ?thesis unfolding md using valid_high by blast
qed

lemma Decode_valid: "validRune (fst (DecodeRuneInString s))"
proof -
  define s0 where "s0 = (of_char (s ! 0) :: nat)"
  define s1 where "s1 = (of_char (s ! 1) :: nat)"
  define s2 where "s2 = (of_char (s ! 2) :: nat)"
  define s3 where "s3 = (of_char (s ! 3) :: nat)"
  note defs = s0_def [symmetric] s1_def [symmetric] s2_def [symmetric] s3_def [symmetric]
  note D = DecodeRuneInString_def [of s, unfolded defs]
  consider "length s < 1" | "\<not> length s < 1" "0xF4 < s0" | "\<not> length s < 1" "0x80 \<le> s0" "s0 < 0xC2"
    | "\<not> length s < 1" "s0 < 0x80"
    | "\<not> length s < 1" "0xC2 \<le> s0" "s0 < 0xE0" | "\<not> length s < 1" "0xE0 \<le> s0" "s0 < 0xF0"
    | "\<not> length s < 1" "0xF0 \<le> s0" "s0 \<le> 0xF4"
    by linarith
  then show ?thesis
  proof cases
    case 1
    then have "fst (DecodeRuneInString s) = RuneError"
      unfolding D by simp
    then show ?thesis by (simp add: validRune_RuneError)
  next
    case 2
    then have "fst (DecodeRuneInString s) = RuneError"
      unfolding D by simp
    then show ?thesis by (simp add: validRune_RuneError)
  next
    case 3
    then have "fst (DecodeRuneInString s) = RuneError"
      unfolding D by simp
    then show ?thesis by (simp add: validRune_RuneError)
  next
    case 4
    then have "fst (DecodeRuneInString s) = s0"
      unfolding D by simp
    with 4 show ?thesis by (simp add: valid_low)
  next
    case 5
    then have "fst (DecodeRuneInString s) = RuneError \<or>
      (0x80 \<le> s1 \<and> s1 \<le> 0xBF \<and> fst (DecodeRuneInString s) = (s0 mod 0x20) * 0x40 + s1 mod 0x40)"
      unfolding D by (simp add: Let_def)
    with 5 show ?thesis using v2 [of s0 s1] validRune_RuneError by auto
  next
    case 6
    then have "fst (DecodeRuneInString s) = RuneError \<or>
      (0x80 \<le> s1 \<and> s1 \<le> 0xBF \<and> (s0 = 0xED \<longrightarrow> s1 \<le> 0x9F) \<and> 0x80 \<le> s2 \<and> s2 \<le> 0xBF \<and>
       fst (DecodeRuneInString s) = (s0 mod 0x10) * 0x1000 + (s1 mod 0x40) * 0x40 + s2 mod 0x40)"
      unfolding D by (auto simp add: Let_def)
    with 6 show ?thesis using v3 [of s0 s1 s2] validRune_RuneError by auto
  next
    case 7
    then have "fst (DecodeRuneInString s) = RuneError \<or>
      (0x80 \<le> s1 \<and> s1 \<le> 0xBF \<and> (s0 = 0xF0 \<longrightarrow> 0x90 \<le> s1) \<and> (s0 = 0xF4 \<longrightarrow> s1 \<le> 0x8F)
       \<and> 0x80 \<le> s2 \<and> s2 \<le> 0xBF \<and> 0x80 \<le> s3 \<and> s3 \<le> 0xBF \<and>
       fst (DecodeRuneInString s) = (s0 mod 0x08) * 0x40000 + (s1 mod 0x40) * 0x1000
                       + (s2 mod 0x40) * 0x40 + s3 mod 0x40)"
      unfolding D by (auto simp add: Let_def)
    with 7 show ?thesis using v4 [of s0 s1 s2 s3] validRune_RuneError by auto
  qed
qed


lemma EncodeRune_ne: "EncodeRune r \<noteq> []"
  by (simp add: EncodeRune_def Let_def)

lemma runes_Encode:
  assumes "validRune r"
  shows "runes (EncodeRune r @ rest) = r # runes rest"
proof -
  obtain c cs where e: "EncodeRune r = c # cs"
    using EncodeRune_ne [of r] by (cases "EncodeRune r") auto
  have "DecodeRuneInString (c # cs @ rest) = (r, Suc (length cs))"
    using Decode_Encode [OF assms, of rest] by (simp add: e)
  then show ?thesis by (simp add: e)
qed

lemma runes_utf8_append: "list_all validRune rs \<Longrightarrow> runes (utf8 rs @ rest) = rs @ runes rest"
  by (induction rs) (simp_all add: utf8_def runes_Encode)

lemma runes_utf8: "list_all validRune rs \<Longrightarrow> runes (utf8 rs) = rs"
  using runes_utf8_append [of rs "[]"] by simp

lemma runes_valid: "list_all validRune (runes s)"
  by (induction s rule: runes.induct) (simp_all add: Decode_valid)

lemma runes_length_le: "length (runes s) \<le> length s"
proof (induction s rule: runes.induct)
  case 1
  show ?case by simp
next
  case (2 c s)
  then show ?case by simp
qed

lemma runes_ascii: "list_all (\<lambda>c. (of_char c :: nat) < 0x80) s \<Longrightarrow> runes s = map of_char s"
  by (induction s) (simp_all add: DecodeRuneInString_def)


section \<open>The tokens of \<open>subTokenize\<close> are the maximal runs of letters and numbers\<close>

lemma splitRuns_ne: "splitRuns P xs \<noteq> []"
  by (induction xs) (auto split: list.splits)

lemma utf8_Nil_iff: "utf8 rs = [] \<longleftrightarrow> rs = []"
  by (cases rs) (simp_all add: utf8_def EncodeRune_ne)

lemma utf8_append: "utf8 (xs @ ys) = utf8 xs @ utf8 ys"
  by (simp add: utf8_def)

lemma loop_Cons:
  "subTokenize_loop T ty (r # rs) out =
     (if letterOrNumber T r then subTokenize_loop T ty rs (out @ EncodeRune r)
      else if out \<noteq> [] then \<lparr>Value = out, Type = ty\<rparr> # subTokenize_loop T ty rs []
      else subTokenize_loop T ty rs [])"
  by (simp add: letterOrNumber_def)

lemma loop_runs:
  "map Value (subTokenize_loop T ty rs (utf8 pre)) =
     map utf8 (filter (\<lambda>piece. piece \<noteq> [])
        (case splitRuns (letterOrNumber T) rs of r # rest \<Rightarrow> (pre @ r) # rest | [] \<Rightarrow> []))"
proof (induction rs arbitrary: pre)
  case Nil
  show ?case by (simp add: utf8_Nil_iff)
next
  case (Cons r rs)
  obtain q rest where sp: "splitRuns (letterOrNumber T) rs = q # rest"
    using splitRuns_ne [of "letterOrNumber T" rs] by (cases "splitRuns (letterOrNumber T) rs") auto
  show ?case
  proof (cases "letterOrNumber T r")
    case True
    have "utf8 pre @ EncodeRune r = utf8 (pre @ [r])"
      by (simp add: utf8_def)
    with True Cons.IH [of "pre @ [r]"] sp show ?thesis
      by (simp add: loop_Cons del: subTokenize_loop.simps)
  next
    case False
    with Cons.IH [of "[]"] sp show ?thesis
      by (simp add: loop_Cons utf8_Nil_iff del: subTokenize_loop.simps) (simp add: utf8_def)
  qed
qed

lemma loop_type: "list_all (\<lambda>t. Type t = ty) (subTokenize_loop T ty rs out)"
  by (induction rs arbitrary: out) simp_all

lemma subTokenize_values:
  "map Value (subTokenize T text ty) = map utf8 (maximalRuns (letterOrNumber T) (runes text))"
  using loop_runs [of T ty "runes text" "[]"] splitRuns_ne [of "letterOrNumber T" "runes text"]
  by (cases "splitRuns (letterOrNumber T) (runes text)") (simp_all add: subTokenize_def maximalRuns_def utf8_def)

lemma splitRuns_concat: "concat (splitRuns P xs) = filter P xs"
  using splitRuns_ne [of P]
  by (induction xs) (auto split: list.splits)

lemma splitRuns_all: "list_all (list_all P) (splitRuns P xs)"
  by (induction xs) (auto split: list.splits)

lemma concat_filter_ne: "concat (filter (\<lambda>piece. piece \<noteq> []) xss) = concat xss"
  by (induction xss) auto

lemma maximalRuns_concat: "concat (maximalRuns P xs) = filter P xs"
  by (simp add: maximalRuns_def concat_filter_ne splitRuns_concat)

lemma maximalRuns_all: "list_all (\<lambda>piece. piece \<noteq> [] \<and> list_all P piece) (maximalRuns P xs)"
  using splitRuns_all [of P xs]
  by (auto simp: maximalRuns_def list_all_iff)


lemma splitRuns_in: "set (concat (splitRuns P xs)) \<subseteq> set xs"
  by (simp add: splitRuns_concat)

lemma runs_in: "piece \<in> set (maximalRuns P xs) \<Longrightarrow> set piece \<subseteq> set xs"
  using splitRuns_in [of P xs] by (auto simp add: maximalRuns_def)

lemma utf8_concat: "concat (map utf8 runs) = utf8 (concat runs)"
  by (induction runs) (simp_all add: utf8_def)

lemma subTokenize_facts:
  "list_all (\<lambda>t. Value t \<noteq> [] \<and> Type t = tokenType \<and> list_all (letterOrNumber T) (runes (Value t)))
     (subTokenize T input tokenType)
   \<and> map (\<lambda>t. runes (Value t)) (subTokenize T input tokenType) = maximalRuns (letterOrNumber T) (runes input)
   \<and> list_all (\<lambda>piece. piece \<noteq> [] \<and> list_all (letterOrNumber T) piece) (maximalRuns (letterOrNumber T) (runes input))
   \<and> concat (maximalRuns (letterOrNumber T) (runes input)) = filter (letterOrNumber T) (runes input)
   \<and> runes (concat (map Value (subTokenize T input tokenType))) = filter (letterOrNumber T) (runes input)
   \<and> concat (map Value (subTokenize T input tokenType)) = utf8 (filter (letterOrNumber T) (runes input))"
proof -
  let ?toks = "subTokenize T input tokenType"
  let ?runs = "maximalRuns (letterOrNumber T) (runes input)"
  have vals: "map Value ?toks = map utf8 ?runs"
    by (rule subTokenize_values)
  have runs_ok: "list_all (\<lambda>piece. piece \<noteq> [] \<and> list_all (letterOrNumber T) piece) ?runs"
    by (rule maximalRuns_all)
  have cat: "concat ?runs = filter (letterOrNumber T) (runes input)"
    by (rule maximalRuns_concat)
  have valid: "list_all (list_all validRune) ?runs"
    using runes_valid [of input] runs_in [of _ "letterOrNumber T" "runes input"]
    by (auto simp add: list_all_iff)
  have rr: "map (\<lambda>t. runes (Value t)) ?toks = ?runs"
  proof -
    have "map (\<lambda>t. runes (Value t)) ?toks = map runes (map Value ?toks)" by simp
    also have "\<dots> = map (\<lambda>piece. runes (utf8 piece)) ?runs" by (simp add: vals)
    also have "\<dots> = ?runs"
      using valid by (simp add: list_all_iff runes_utf8 map_idI)
    finally show ?thesis .
  qed
  have catv: "concat (map Value ?toks) = utf8 (filter (letterOrNumber T) (runes input))"
    by (simp add: vals utf8_concat cat)
  have vf: "list_all validRune (filter (letterOrNumber T) (runes input))"
    using runes_valid [of input] by (auto simp add: list_all_iff)
  have rcat: "runes (concat (map Value ?toks)) = filter (letterOrNumber T) (runes input)"
    by (simp add: catv runes_utf8 [OF vf])
  have each: "list_all (\<lambda>t. Value t \<noteq> [] \<and> Type t = tokenType \<and> list_all (letterOrNumber T) (runes (Value t))) ?toks"
  proof -
    have ty: "list_all (\<lambda>t. Type t = tokenType) ?toks"
      unfolding subTokenize_def by (rule loop_type)
    have "list_all (\<lambda>piece. piece \<noteq> [] \<and> list_all (letterOrNumber T) piece) (map (\<lambda>t. runes (Value t)) ?toks)"
      using runs_ok by (simp only: rr)
    then have "list_all (\<lambda>t. runes (Value t) \<noteq> [] \<and> list_all (letterOrNumber T) (runes (Value t))) ?toks"
      by (simp add: list_all_iff)
    then have "list_all (\<lambda>t. Value t \<noteq> [] \<and> list_all (letterOrNumber T) (runes (Value t))) ?toks"
      by (auto simp add: list_all_iff)
    with ty show ?thesis by (auto simp add: list_all_iff)
  qed
  from each rr runs_ok cat rcat catv show ?thesis by blast
qed

lemma subTokenize_utf8:
  "list_all validRune rs \<Longrightarrow>
   map Value (subTokenize T (utf8 rs) ty) = map utf8 (maximalRuns (letterOrNumber T) rs)"
  by (simp add: subTokenize_values runes_utf8)

text \<open>
  C7: the tokens of \<open>subTokenize\<close> are non-empty and carry the given type; their values,
  read as runes, are exactly the maximal runs of letters and numbers (the runes that
  \<open>unicode.IsLetter\<close> or \<open>unicode.IsNumber\<close> accepts) among the runes of the text, in order,
  so no token holds a rune that is neither; the token values concatenated are the letters
  and numbers of the text in order.  For a text that is the UTF-8 encoding of a list of
  Unicode scalar values, the token values are the encodings of the maximal runs of letters
  and numbers of that list.
\<close>

theorem subTokenize_maximal_runs:
  "list_all (\<lambda>t. Value t \<noteq> [] \<and> Type t = tokenType \<and> list_all (letterOrNumber T) (runes (Value t)))
     (subTokenize T input tokenType)
   \<and> map (\<lambda>t. runes (Value t)) (subTokenize T input tokenType) = maximalRuns (letterOrNumber T) (runes input)
   \<and> list_all (\<lambda>piece. piece \<noteq> [] \<and> list_all (letterOrNumber T) piece) (maximalRuns (letterOrNumber T) (runes input))
   \<and> concat (maximalRuns (letterOrNumber T) (runes input)) = filter (letterOrNumber T) (runes input)
   \<and> runes (concat (map Value (subTokenize T input tokenType))) = filter (letterOrNumber T) (runes input)
   \<and> concat (map Value (subTokenize T input tokenType)) = utf8 (filter (letterOrNumber T) (runes input))
   \<and> (list_all validRune rs \<longrightarrow>
         runes (utf8 rs) = rs
         \<and> map Value (subTokenize T (utf8 rs) tokenType)
             = map utf8 (maximalRuns (letterOrNumber T) rs)
         \<and> concat (map Value (subTokenize T (utf8 rs) tokenType))
             = utf8 (filter (letterOrNumber T) rs))"
proof -
  have "list_all validRune rs \<longrightarrow>
         runes (utf8 rs) = rs
         \<and> map Value (subTokenize T (utf8 rs) tokenType)
             = map utf8 (maximalRuns (letterOrNumber T) rs)
         \<and> concat (map Value (subTokenize T (utf8 rs) tokenType))
             = utf8 (filter (letterOrNumber T) rs)"
    by (simp add: subTokenize_utf8 runes_utf8 utf8_concat maximalRuns_concat)
  with subTokenize_facts [of tokenType T input] show ?thesis by blast
qed

theorem subTokenize_maximal_runs_witness:
  "list_all validRune [0x61, 0x62, 0x2D, 0xE9, 0x31, 0x20]
   \<and> utf8 [0x61, 0x62, 0x2D, 0xE9, 0x31, 0x20]
       = [CHR ''a'', CHR ''b'', CHR ''-'', CHR 0xC3, CHR 0xA9, CHR ''1'', CHR '' '']
   \<and> maximalRuns (letterOrNumber latin1Only) [0x61, 0x62, 0x2D, 0xE9, 0x31, 0x20]
       = [[0x61, 0x62], [0xE9, 0x31]]
   \<and> subTokenize latin1Only [CHR ''a'', CHR ''b'', CHR ''-'', CHR 0xC3, CHR 0xA9, CHR ''1'', CHR '' ''] Path
       = [\<lparr>Value = ''ab'', Type = Path\<rparr>, \<lparr>Value = [CHR 0xC3, CHR 0xA9, CHR ''1''], Type = Path\<rparr>]
   \<and> map Value (subTokenize latin1Only (utf8 [0x61, 0x62, 0x2D, 0xE9, 0x31, 0x20]) Path)
       = map utf8 (maximalRuns (letterOrNumber latin1Only) [0x61, 0x62, 0x2D, 0xE9, 0x31, 0x20])
   \<and> concat (map Value (subTokenize latin1Only (utf8 [0x61, 0x62, 0x2D, 0xE9, 0x31, 0x20]) Path))
       = utf8 [0x61, 0x62, 0xE9, 0x31]"
proof -
  let ?rs = "[0x61, 0x62, 0x2D, 0xE9, 0x31, 0x20] :: rune list"
  have v: "list_all validRune ?rs"
    by (simp add: validRune_def)
  have e: "utf8 ?rs = [CHR ''a'', CHR ''b'', CHR ''-'', CHR 0xC3, CHR 0xA9, CHR ''1'', CHR '' '']"
    by (simp add: utf8_def EncodeRune_def char_of_def bit_Suc_0_iff)
  have m: "maximalRuns (letterOrNumber latin1Only) ?rs = [[0x61, 0x62], [0xE9, 0x31]]"
    by (simp add: maximalRuns_def letterOrNumber_def IsLetter_def IsNumber_def MaxLatin1_def
        latin1Letter_def latin1Number_def)
  have f: "filter (letterOrNumber latin1Only) ?rs = [0x61, 0x62, 0xE9, 0x31]"
    by (simp add: letterOrNumber_def IsLetter_def IsNumber_def MaxLatin1_def
        latin1Letter_def latin1Number_def)
  have t: "subTokenize latin1Only [CHR ''a'', CHR ''b'', CHR ''-'', CHR 0xC3, CHR 0xA9, CHR ''1'', CHR '' ''] Path
       = [\<lparr>Value = ''ab'', Type = Path\<rparr>, \<lparr>Value = [CHR 0xC3, CHR 0xA9, CHR ''1''], Type = Path\<rparr>]"
    by (simp add: subTokenize_def DecodeRuneInString_def EncodeRune_def IsLetter_def
        IsNumber_def MaxLatin1_def latin1Letter_def latin1Number_def char_of_def bit_Suc_0_iff)
  have th: "map Value (subTokenize latin1Only (utf8 ?rs) Path)
       = map utf8 (maximalRuns (letterOrNumber latin1Only) ?rs)
     \<and> concat (map Value (subTokenize latin1Only (utf8 ?rs) Path))
       = utf8 (filter (letterOrNumber latin1Only) ?rs)"
    using v subTokenize_maximal_runs [where tokenType = Path and T = latin1Only and input = "[]" and rs = ?rs]
    by blast
  show ?thesis
    using v e m t th unfolding f by blast
qed

text \<open>
  C7, as it reads with digits: the text \<open>x\<close>, one half (\<open>U+00BD\<close>, a number that is no
  digit), \<open>y\<close> yields one token, which holds the one half; the runs of letters and digits
  of this text are \<open>x\<close> and \<open>y\<close>, and the token values concatenated are not the letters and
  digits of the text.
\<close>

theorem subTokenize_number_counterexample:
  "subTokenize latin1Only [CHR ''x'', CHR 0xC2, CHR 0xBD, CHR ''y''] Generic
     = [\<lparr>Value = [CHR ''x'', CHR 0xC2, CHR 0xBD, CHR ''y''], Type = Generic\<rparr>]
   \<and> runes [CHR ''x'', CHR 0xC2, CHR 0xBD, CHR ''y''] = [0x78, 0xBD, 0x79]
   \<and> \<not> letterOrDigit latin1Only 0xBD
   \<and> maximalRuns (letterOrDigit latin1Only) [0x78, 0xBD, 0x79] = [[0x78], [0x79]]
   \<and> runes (concat (map Value (subTokenize latin1Only [CHR ''x'', CHR 0xC2, CHR 0xBD, CHR ''y''] Generic)))
       \<noteq> filter (letterOrDigit latin1Only) (runes [CHR ''x'', CHR 0xC2, CHR 0xBD, CHR ''y''])"
  by (simp add: subTokenize_def DecodeRuneInString_def EncodeRune_def IsLetter_def IsNumber_def
      IsDigit_def MaxLatin1_def latin1Letter_def latin1Number_def letterOrDigit_def
      maximalRuns_def char_of_def bit_Suc_0_iff)

section \<open>One call of \<open>processToken\<close>\<close>

lemma letterNumberFlags_fold:
  "foldl (\<lambda>(hasLetter, hasNumber) r.
            (if IsLetter T r then True else hasLetter,
             if IsNumber T r then True else hasNumber)) (a, b) rs
   = (a \<or> list_ex (IsLetter T) rs, b \<or> list_ex (IsNumber T) rs)"
  by (induction rs arbitrary: a b) auto

lemma letterNumberFlags_eq:
  "letterNumberFlags T str = (list_ex (IsLetter T) (runes str), list_ex (IsNumber T) (runes str))"
  by (simp add: letterNumberFlags_def letterNumberFlags_fold)



lemma processToken_passed:
  assumes "lastToken st (Value token) = None" "passesFilters T c (Value token)"
  shows "snd (processToken T c token st)
          = route token (st\<lparr>lastToken := (lastToken st)(Value token \<mapsto> True)\<rparr>)"
    and "fst (processToken T c token st) =
          (if Type token = Path \<and> pathFile st \<noteq> None then ToPathFile
           else if Type token = ParamName \<and> paramFile st \<noteq> None then ToParamFile
           else ToStdout)"
  using assms
  by (auto simp add: processToken_def LoadOrStore_def Let_def passesFilters_def
      letterNumberFlags_eq route_def sinkLines_def split: option.splits TokenType.splits)








section \<open>The worker\<close>





lemma upt_Suc_shift: "[0..<Suc n] = 0 # map Suc [0..<n]"
  by (simp add: upt_conv_Cons map_Suc_upt del: upt_Suc)




text \<open>
  C6: a token that is not a duplicate and passes the filters is appended to exactly one
  sink and the other two are left as they were: a \<open>Path\<close> token goes to the path file when
  there is one, a \<open>ParamName\<close> token to the parameter file when there is one, and every
  other token, as well as these two without their file, to standard output.
\<close>

theorem surviving_token_written_to_one_sink:
  assumes "lastToken st (Value token) = None" and "passesFilters T c (Value token)"
  shows "(stdout (snd (processToken T c token st)),
          pathFile (snd (processToken T c token st)),
          paramFile (snd (processToken T c token st)))
       = (if Type token = Path \<and> pathFile st \<noteq> None
            then (stdout st, Some (sinkLines (pathFile st) @ [Value token]), paramFile st)
          else if Type token = ParamName \<and> paramFile st \<noteq> None
            then (stdout st, pathFile st, Some (sinkLines (paramFile st) @ [Value token]))
          else (stdout st @ [Value token], pathFile st, paramFile st))"
  using assms by (simp add: processToken_passed(1) route_def)

theorem surviving_token_written_to_one_sink_witness:
  "lastToken (initial True True) (Value \<lparr>Value = ''users'', Type = Path\<rparr>) = None
   \<and> passesFilters latin1Only
        \<lparr>minlength = 1, maxlength = 25, alphaNumOnly = False, filterString = ''user'', regex = None\<rparr>
        (Value \<lparr>Value = ''users'', Type = Path\<rparr>)
   \<and> (stdout (snd (processToken latin1Only
          \<lparr>minlength = 1, maxlength = 25, alphaNumOnly = False, filterString = ''user'', regex = None\<rparr>
          \<lparr>Value = ''users'', Type = Path\<rparr> (initial True True))),
        pathFile (snd (processToken latin1Only
          \<lparr>minlength = 1, maxlength = 25, alphaNumOnly = False, filterString = ''user'', regex = None\<rparr>
          \<lparr>Value = ''users'', Type = Path\<rparr> (initial True True))),
        paramFile (snd (processToken latin1Only
          \<lparr>minlength = 1, maxlength = 25, alphaNumOnly = False, filterString = ''user'', regex = None\<rparr>
          \<lparr>Value = ''users'', Type = Path\<rparr> (initial True True))))
       = ([], Some [''users''], Some [])"
proof -
  let ?c = "\<lparr>minlength = 1, maxlength = 25, alphaNumOnly = False, filterString = ''user'', regex = None\<rparr>"
  let ?t = "\<lparr>Value = ''users'', Type = Path\<rparr>"
  have h1: "lastToken (initial True True) (Value ?t) = None"
    by (simp add: initial_def)
  have h2: "passesFilters latin1Only ?c (Value ?t)"
    by (simp add: passesFilters_def Contains_def HasPrefix_def)
  show ?thesis
    using h1 h2 surviving_token_written_to_one_sink [OF h1 h2]
    by (simp add: initial_def sinkLines_def)
qed

text \<open>
  C2, as the code has it: a token that reaches the length filter is discarded there
  exactly when its length in bytes is below \<open>minlength\<close> or above \<open>maxlength\<close>.  The number
  of characters is never more than the number of bytes, and equals it when all bytes are
  ASCII.
\<close>

theorem length_filter_counts_bytes:
  assumes "lastToken st (Value token) = None"
  shows "((fst (processToken T c token st) = TooShortOrLong)
           = (int (length (Value token)) < minlength c \<or> maxlength c < int (length (Value token))))
    \<and> length (runes (Value token)) \<le> length (Value token)
    \<and> (list_all (\<lambda>b. (of_char b :: nat) < 0x80) (Value token)
           \<longrightarrow> length (runes (Value token)) = length (Value token))"
proof (intro conjI impI)
  show "(fst (processToken T c token st) = TooShortOrLong)
           = (int (length (Value token)) < minlength c \<or> maxlength c < int (length (Value token)))"
    using assms
    by (auto simp add: processToken_def LoadOrStore_def Let_def split: option.splits prod.splits TokenType.splits)
  show "length (runes (Value token)) \<le> length (Value token)"
    by (rule runes_length_le)
  show "list_all (\<lambda>b. (of_char b :: nat) < 0x80) (Value token)
           \<Longrightarrow> length (runes (Value token)) = length (Value token)"
    by (simp add: runes_ascii)
qed

theorem length_filter_counts_bytes_witness:
  "lastToken (initial False False) (Value \<lparr>Value = ''ab'', Type = Generic\<rparr>) = None
   \<and> fst (processToken latin1Only
        \<lparr>minlength = 3, maxlength = 25, alphaNumOnly = False, filterString = [], regex = None\<rparr>
        \<lparr>Value = ''ab'', Type = Generic\<rparr> (initial False False)) = TooShortOrLong
   \<and> list_all (\<lambda>b. (of_char b :: nat) < 0x80) (Value \<lparr>Value = ''ab'', Type = Generic\<rparr>)
   \<and> length (runes (Value \<lparr>Value = ''ab'', Type = Generic\<rparr>)) = 2"
proof -
  have h: "lastToken (initial False False) (Value \<lparr>Value = ''ab'', Type = Generic\<rparr>) = None"
    by (simp add: initial_def)
  show ?thesis
    using h length_filter_counts_bytes [OF h, of latin1Only
        "\<lparr>minlength = 3, maxlength = 25, alphaNumOnly = False, filterString = [], regex = None\<rparr>"]
    by simp
qed

text \<open>
  The claim C2 as stated fails for the one-character token \<open>U+00E9\<close> (two bytes in
  UTF-8), which the input line holding just that character produces: with both bounds 1
  its character count is within the bounds, and the length filter discards it.
\<close>

theorem length_filter_characters_counterexample:
  "lineTokens goURL latin1Only id [CHR 0xC3, CHR 0xA9] = [\<lparr>Value = [CHR 0xC3, CHR 0xA9], Type = Generic\<rparr>]
   \<and> lastToken (initial False False) [CHR 0xC3, CHR 0xA9] = None
   \<and> fst (processToken latin1Only
        \<lparr>minlength = 1, maxlength = 1, alphaNumOnly = False, filterString = [], regex = None\<rparr>
        \<lparr>Value = [CHR 0xC3, CHR 0xA9], Type = Generic\<rparr> (initial False False)) = TooShortOrLong
   \<and> \<not> (int (length (runes [CHR 0xC3, CHR 0xA9])) < 1 \<or> 1 < int (length (runes [CHR 0xC3, CHR 0xA9])))"
  by (simp add: processToken_def LoadOrStore_def initial_def DecodeRuneInString_def
      lineTokens_def goURL_def goURLWith_def url_Parse_def parse_def Cut_def HasPrefix_def HasSuffix_def
      stringContainsCTLByte_def getScheme_def inRange_def ToLower_def Count_def Contains_def
      setPath_def unescape_def emptyURL_def subTokenize_def IsLetter_def IsNumber_def
      MaxLatin1_def latin1Letter_def latin1Number_def EncodeRune_def char_of_def bit_Suc_0_iff
      Let_def)

section \<open>The loop body\<close>

lemma subTokenize_type: "list_all (\<lambda>t. Type t = tokenType) (subTokenize T input tokenType)"
  unfolding subTokenize_def by (rule loop_type)

lemma concat_subTokenize_type:
  "list_all (\<lambda>t. Type t = tokenType) (concat (map (\<lambda>part. subTokenize T part tokenType) parts))"
  using subTokenize_type [of tokenType T] by (induction parts) (auto simp add: list_all_iff)

lemma hostnameTokens_type: "list_all (\<lambda>t. Type t = Subdomain) (hostnameTokens T u)"
  unfolding hostnameTokens_def by (rule concat_subTokenize_type)

lemma pathTokens_type: "list_all (\<lambda>t. Type t = Path) (pathTokens T u)"
  unfolding pathTokens_def by (rule concat_subTokenize_type)

lemma fragmentTokens_type: "list_all (\<lambda>t. Type t = Fragment) (fragmentTokens T u)"
  unfolding fragmentTokens_def by (rule subTokenize_type)





lemma lineTokens_url:
  "Parse L line = Inr u \<Longrightarrow> Scheme u \<noteq> [] \<Longrightarrow> Host u \<noteq> [] \<Longrightarrow>
   lineTokens L T order line = urlTokens L T order u"
  by (simp add: lineTokens_def)


subsection \<open>The lines that the scanner delivers\<close>








subsection \<open>The classification of a line\<close>


lemmas strings_eval = HasPrefix_def HasSuffix_def Contains_def Cut_def Count_def ToLower_def
  inRange_def
lemmas neturl_eval = url_Parse_def parse_def getScheme_def stringContainsCTLByte_def
  parseAuthority_def parseHost_def validOptionalPort_def setPath_def setFragment_def
  unescape_def emptyURL_def ishex_def unhex_def shouldEscapeHost_def validUserinfo_def
  QueryUnescape_def url_ParseQuery_def urlmaxqueryparams_def splitHostPort_def Hostname_def
  goURL_def goURLWith_def noIPLiteral_def
lemmas tokens_eval = subTokenize_def DecodeRuneInString_def EncodeRune_def IsLetter_def
  IsNumber_def MaxLatin1_def latin1Letter_def latin1Number_def char_of_def bit_Suc_0_iff
lemmas loop_eval = lineTokens_def urlTokens_def hostnameTokens_def pathTokens_def
  queryTokens_def keyTokens_def fragmentTokens_def isURL_def



text \<open>
  C8: when the query string of a URL line fails to parse, the line yields the tokens of
  its hostname, its path and its fragment and no parameter token; the function returns
  its tokens as for any other line, and the loop goes on with the next line.
\<close>

theorem query_failure_skips_parameters:
  assumes "Parse L line = Inr u" and "Scheme u \<noteq> []" and "Host u \<noteq> []"
    and "snd (ParseQuery L (RawQuery u)) = Some err"
  shows "lineTokens L T order line = hostnameTokens T u @ pathTokens T u @ fragmentTokens T u
    \<and> list_all (\<lambda>t. Type t \<noteq> ParamName \<and> Type t \<noteq> ParamValue) (lineTokens L T order line)
    \<and> producer L T orders n (line # lines)
        = (hostnameTokens T u @ pathTokens T u @ fragmentTokens T u)
          @ producer L T orders (Suc n) lines"
proof -
  have q: "queryTokens L T order' u = []" for order'
    using assms(4) by (auto simp add: queryTokens_def split: prod.splits option.splits)
  have t: "lineTokens L T order' line = hostnameTokens T u @ pathTokens T u @ fragmentTokens T u"
    for order'
    using assms(1-3) by (simp add: lineTokens_url urlTokens_def q)
  have "list_all (\<lambda>t. Type t \<noteq> ParamName \<and> Type t \<noteq> ParamValue)
          (hostnameTokens T u @ pathTokens T u @ fragmentTokens T u)"
    using hostnameTokens_type [of T u] pathTokens_type [of T u] fragmentTokens_type [of T u]
    by (auto simp add: list_all_iff)
  then show ?thesis by (simp add: t)
qed

theorem query_failure_skips_parameters_witness:
  "Parse goURL ''https://example.com/a?x=%zz#frag''
     = Inr \<lparr>Scheme = ''https'', Opaque = [], User = None, Host = ''example.com'',
            URL_Path = ''/a'', RawQuery = ''x=%zz'', URL_Fragment = ''frag''\<rparr>
   \<and> snd (ParseQuery goURL ''x=%zz'') = Some (EscapeError ''%zz'')
   \<and> lineTokens goURL latin1Only id ''https://example.com/a?x=%zz#frag''
       = [\<lparr>Value = ''example'', Type = Subdomain\<rparr>, \<lparr>Value = ''com'', Type = Subdomain\<rparr>,
          \<lparr>Value = ''a'', Type = Path\<rparr>, \<lparr>Value = ''frag'', Type = Fragment\<rparr>]
   \<and> list_all (\<lambda>t. Type t \<noteq> ParamName \<and> Type t \<noteq> ParamValue)
        (lineTokens goURL latin1Only id ''https://example.com/a?x=%zz#frag'')"
proof -
  let ?u = "\<lparr>Scheme = ''https'', Opaque = [], User = None, Host = ''example.com'',
            URL_Path = ''/a'', RawQuery = ''x=%zz'', URL_Fragment = ''frag''\<rparr>"
  have p: "Parse goURL ''https://example.com/a?x=%zz#frag'' = Inr ?u"
    by (simp add: strings_eval neturl_eval Let_def)
  have q: "snd (ParseQuery goURL (RawQuery ?u)) = Some (EscapeError ''%zz'')"
    by (simp add: strings_eval neturl_eval Let_def)
  have r: "hostnameTokens latin1Only ?u @ pathTokens latin1Only ?u @ fragmentTokens latin1Only ?u
       = [\<lparr>Value = ''example'', Type = Subdomain\<rparr>, \<lparr>Value = ''com'', Type = Subdomain\<rparr>,
          \<lparr>Value = ''a'', Type = Path\<rparr>, \<lparr>Value = ''frag'', Type = Fragment\<rparr>]"
    by (simp add: strings_eval neturl_eval tokens_eval loop_eval Let_def)
  show ?thesis
    using p q r query_failure_skips_parameters [OF p _ _ q, of latin1Only id "\<lambda>n. id" 0 "[]"]
    by simp
qed

section \<open>The order of the tokens\<close>

lemma producer_concat:
  "producer L T orders n lines
     = concat (map (\<lambda>i. lineTokens L T (orders (n + i)) (lines ! i)) [0..<length lines])"
proof (induction lines arbitrary: n)
  case Nil
  show ?case by simp
next
  case (Cons line lines)
  show ?case
    by (simp add: Cons.IH [of "Suc n"] upt_Suc_shift comp_def del: upt_Suc)
qed

lemma rangeOrder_mset: "rangeOrder order \<Longrightarrow> mset (order q) = mset q"
  by (simp add: rangeOrder_def)

lemma rangeOrder_short:
  assumes "rangeOrder order" "length q \<le> 1"
  shows "order q = q"
proof (cases q)
  case Nil
  then show ?thesis using rangeOrder_mset [OF assms(1), of q] by simp
next
  case (Cons e es)
  then have "q = [e]" using assms(2) by simp
  then show ?thesis using rangeOrder_mset [OF assms(1), of q] by simp
qed

lemma mset_concat_map:
  "mset xs = mset ys \<Longrightarrow> mset (concat (map f xs)) = mset (concat (map f ys))"
proof -
  assume e: "mset xs = mset ys"
  have "mset (concat (map f zs)) = sum_mset (image_mset (\<lambda>z. mset (f z)) (mset zs))" for zs
    by (induction zs) simp_all
  then show ?thesis by (simp add: e)
qed

lemma queryTokens_mset:
  assumes "rangeOrder order" "rangeOrder order'"
  shows "mset (queryTokens L T order u) = mset (queryTokens L T order' u)"
proof (cases "ParseQuery L (RawQuery u)")
  case (Pair q err)
  have "mset (order q) = mset (order' q)"
    using assms by (simp add: rangeOrder_mset)
  then have "mset (concat (map (keyTokens T) (order q))) = mset (concat (map (keyTokens T) (order' q)))"
    by (rule mset_concat_map)
  then show ?thesis by (simp add: queryTokens_def Pair split: option.splits)
qed

lemma lineTokens_mset:
  assumes "rangeOrder order" "rangeOrder order'"
  shows "mset (lineTokens L T order line) = mset (lineTokens L T order' line)"
  using queryTokens_mset [OF assms, of L T]
  by (simp add: lineTokens_def urlTokens_def split: sum.splits)

lemma producer_mset:
  assumes "\<forall>n. rangeOrder (orders n)" "\<forall>n. rangeOrder (orders' n)"
  shows "mset (producer L T orders n lines) = mset (producer L T orders' n lines)"
proof (induction lines arbitrary: n)
  case Nil
  show ?case by simp
next
  case (Cons line lines)
  have "mset (lineTokens L T (orders n) line) = mset (lineTokens L T (orders' n) line)"
    using assms by (intro lineTokens_mset) simp_all
  then show ?case by (simp add: Cons.IH)
qed

lemma lineTokens_one_key:
  assumes "rangeOrder order" "rangeOrder order'"
    and "\<forall>u. Parse L line = Inr u \<longrightarrow> length (fst (ParseQuery L (RawQuery u))) \<le> 1"
  shows "lineTokens L T order line = lineTokens L T order' line"
proof (cases "Parse L line")
  case (Inl err)
  then show ?thesis by (simp add: lineTokens_def)
next
  case (Inr u)
  obtain q err where q: "ParseQuery L (RawQuery u) = (q, err)"
    by (cases "ParseQuery L (RawQuery u)")
  have "length q \<le> 1" using assms(3) Inr q by simp
  then have "order q = q" "order' q = q"
    using assms(1,2) by (simp_all add: rangeOrder_short)
  then have "queryTokens L T order u = queryTokens L T order' u"
    by (simp add: queryTokens_def q split: option.splits)
  then show ?thesis by (simp add: lineTokens_def urlTokens_def Inr)
qed

lemma producer_one_key:
  assumes "\<forall>n. rangeOrder (orders n)" "\<forall>n. rangeOrder (orders' n)"
    and "\<forall>line\<in>set lines. \<forall>u. Parse L line = Inr u \<longrightarrow> length (fst (ParseQuery L (RawQuery u))) \<le> 1"
  shows "producer L T orders n lines = producer L T orders' n lines"
  using assms(3)
proof (induction lines arbitrary: n)
  case Nil
  show ?case by simp
next
  case (Cons line lines)
  have "lineTokens L T (orders n) line = lineTokens L T (orders' n) line"
    using assms(1,2) Cons.prems by (intro lineTokens_one_key) simp_all
  then show ?case using Cons by simp
qed

lemma lineTokens_blocks:
  assumes "rangeOrder order" "Parse L line = Inr u" "Scheme u \<noteq> []" "Host u \<noteq> []"
    "ParseQuery L (RawQuery u) = (q, None)"
  shows "lineTokens L T order line
           = hostnameTokens T u @ pathTokens T u @ concat (map (keyTokens T) (order q))
             @ fragmentTokens T u
         \<and> mset (order q) = mset q"
  using assms by (simp add: lineTokens_url urlTokens_def queryTokens_def rangeOrder_mset)

text \<open>
  C3, as the code has it.  The tokens reach the worker line by line in the order of the
  input lines.  A URL line yields the tokens of its hostname, then of its path, then, for
  each parameter key, the tokens of the key followed by those of its values, then the
  tokens of its fragment; the keys are visited in an order that the Go runtime chooses for
  each loop, a rearrangement of the entries of the map.  So two runs on the same input
  produce the same tokens with the same multiplicities, and the same sequence whenever no
  line has more than one distinct parameter key.
\<close>

theorem token_order_up_to_key_order:
  assumes "\<forall>n. rangeOrder (orders n)" and "\<forall>n. rangeOrder (orders' n)"
  shows "producer L T orders n lines
           = concat (map (\<lambda>i. lineTokens L T (orders (n + i)) (lines ! i)) [0..<length lines])
    \<and> (\<forall>order u q. rangeOrder order \<longrightarrow> Parse L line = Inr u \<longrightarrow> Scheme u \<noteq> [] \<longrightarrow> Host u \<noteq> []
          \<longrightarrow> ParseQuery L (RawQuery u) = (q, None)
          \<longrightarrow> lineTokens L T order line
                = hostnameTokens T u @ pathTokens T u @ concat (map (keyTokens T) (order q))
                  @ fragmentTokens T u
              \<and> mset (order q) = mset q)
    \<and> mset (producer L T orders n lines) = mset (producer L T orders' n lines)
    \<and> ((\<forall>line\<in>set lines. \<forall>u. Parse L line = Inr u
            \<longrightarrow> length (fst (ParseQuery L (RawQuery u))) \<le> 1)
        \<longrightarrow> producer L T orders n lines = producer L T orders' n lines)"
  using producer_concat [of L T orders n lines] lineTokens_blocks [of _ L line _ _ T]
    producer_mset [OF assms, of L T n lines] producer_one_key [OF assms, of lines L T n]
  by blast

lemma rangeOrder_id: "rangeOrder id"
  by (simp add: rangeOrder_def)

lemma rangeOrder_rev: "rangeOrder rev"
  by (simp add: rangeOrder_def)

theorem token_order_up_to_key_order_witness:
  "rangeOrder id \<and> rangeOrder rev
   \<and> producer goURL latin1Only (\<lambda>n. id) 0 [''https://h/?a=1'', ''x y'']
       = producer goURL latin1Only (\<lambda>n. rev) 0 [''https://h/?a=1'', ''x y'']
   \<and> mset (producer goURL latin1Only (\<lambda>n. id) 0 [''https://h/?a=1&b=2''])
       = mset (producer goURL latin1Only (\<lambda>n. rev) 0 [''https://h/?a=1&b=2''])"
proof -
  have a: "\<forall>n. rangeOrder ((\<lambda>n. id) n)" by (simp add: rangeOrder_id)
  have b: "\<forall>n. rangeOrder ((\<lambda>n. rev) n)" by (simp add: rangeOrder_rev)
  have p1: "Parse goURL ''https://h/?a=1''
     = Inr \<lparr>Scheme = ''https'', Opaque = [], User = None, Host = ''h'',
            URL_Path = ''/'', RawQuery = ''a=1'', URL_Fragment = []\<rparr>"
    by (simp add: strings_eval neturl_eval Let_def)
  have p2: "Parse goURL ''x y''
     = Inr \<lparr>Scheme = [], Opaque = [], User = None, Host = [],
            URL_Path = ''x y'', RawQuery = [], URL_Fragment = []\<rparr>"
    by (simp add: strings_eval neturl_eval Let_def)
  have q1: "ParseQuery goURL ''a=1'' = ([(''a'', [''1''])], None)"
    by (simp add: strings_eval neturl_eval Let_def)
  have q2: "ParseQuery goURL [] = ([], None)"
    by (simp add: strings_eval neturl_eval Let_def)
  have c: "\<forall>line\<in>set [''https://h/?a=1'', ''x y'']. \<forall>u. Parse goURL line = Inr u
            \<longrightarrow> length (fst (ParseQuery goURL (RawQuery u))) \<le> 1"
    using p1 p2 q1 q2 by auto
  show ?thesis
    using token_order_up_to_key_order [OF a b, of goURL latin1Only 0 "[''https://h/?a=1'', ''x y'']"] c
      token_order_up_to_key_order [OF a b, of goURL latin1Only 0 "[''https://h/?a=1&b=2'']"]
      rangeOrder_id rangeOrder_rev
    by blast
qed

text \<open>
  The claim C3 as stated fails: on the one-line input \<open>https://h/?a=1&b=2\<close> the loop over
  the query map may visit \<open>a\<close> before \<open>b\<close> in one run and \<open>b\<close> before \<open>a\<close> in another, and
  the two runs send their tokens in different orders.
\<close>

theorem token_order_counterexample:
  "rangeOrder id \<and> rangeOrder rev
   \<and> producer goURL latin1Only (\<lambda>n. id) 0 [''https://h/?a=1&b=2'']
       = [\<lparr>Value = ''h'', Type = Subdomain\<rparr>,
          \<lparr>Value = ''a'', Type = ParamName\<rparr>, \<lparr>Value = ''1'', Type = ParamValue\<rparr>,
          \<lparr>Value = ''b'', Type = ParamName\<rparr>, \<lparr>Value = ''2'', Type = ParamValue\<rparr>]
   \<and> producer goURL latin1Only (\<lambda>n. rev) 0 [''https://h/?a=1&b=2'']
       = [\<lparr>Value = ''h'', Type = Subdomain\<rparr>,
          \<lparr>Value = ''b'', Type = ParamName\<rparr>, \<lparr>Value = ''2'', Type = ParamValue\<rparr>,
          \<lparr>Value = ''a'', Type = ParamName\<rparr>, \<lparr>Value = ''1'', Type = ParamValue\<rparr>]
   \<and> producer goURL latin1Only (\<lambda>n. id) 0 [''https://h/?a=1&b=2'']
       \<noteq> producer goURL latin1Only (\<lambda>n. rev) 0 [''https://h/?a=1&b=2'']"
  by (simp add: rangeOrder_id rangeOrder_rev strings_eval neturl_eval tokens_eval loop_eval Let_def)

section \<open>The example of a repeated parameter key\<close>

lemma rangeOrder_single: "rangeOrder order \<Longrightarrow> order [e] = [e]"
  by (rule rangeOrder_short) simp_all

lemma rangeOrder_empty: "rangeOrder order \<Longrightarrow> order [] = []"
  by (rule rangeOrder_short) simp_all

text \<open>
  C4, as the code has it.  The line \<open>example.com/a?x=1&x=2\<close> has no scheme, so it is not
  classified as a URL and is run-split as a whole: all its tokens are \<open>Generic\<close>, and \<open>x\<close>
  comes twice.  With a scheme in front, \<open>https://example.com/a?x=1&x=2\<close>, the line yields
  the \<open>ParamName\<close> token \<open>x\<close> once and the \<open>ParamValue\<close> tokens \<open>1\<close> and \<open>2\<close>.
\<close>

theorem repeated_key_example:
  assumes "rangeOrder order"
  shows "lineTokens goURL T order ''example.com/a?x=1&x=2''
       = [\<lparr>Value = ''example'', Type = Generic\<rparr>, \<lparr>Value = ''com'', Type = Generic\<rparr>,
          \<lparr>Value = ''a'', Type = Generic\<rparr>, \<lparr>Value = ''x'', Type = Generic\<rparr>,
          \<lparr>Value = ''1'', Type = Generic\<rparr>, \<lparr>Value = ''x'', Type = Generic\<rparr>,
          \<lparr>Value = ''2'', Type = Generic\<rparr>]
   \<and> lineTokens goURL T order ''https://example.com/a?x=1&x=2''
       = [\<lparr>Value = ''example'', Type = Subdomain\<rparr>, \<lparr>Value = ''com'', Type = Subdomain\<rparr>,
          \<lparr>Value = ''a'', Type = Path\<rparr>, \<lparr>Value = ''x'', Type = ParamName\<rparr>,
          \<lparr>Value = ''1'', Type = ParamValue\<rparr>, \<lparr>Value = ''2'', Type = ParamValue\<rparr>]"
  using rangeOrder_single [OF assms]
  by (simp add: strings_eval neturl_eval tokens_eval loop_eval Let_def)

theorem repeated_key_example_witness:
  "rangeOrder id
   \<and> length (filter (\<lambda>t. Type t = ParamName \<and> Value t = ''x'')
        (lineTokens goURL latin1Only id ''https://example.com/a?x=1&x=2'')) = 1
   \<and> \<lparr>Value = ''1'', Type = ParamValue\<rparr>
        \<in> set (lineTokens goURL latin1Only id ''https://example.com/a?x=1&x=2'')
   \<and> \<lparr>Value = ''2'', Type = ParamValue\<rparr>
        \<in> set (lineTokens goURL latin1Only id ''https://example.com/a?x=1&x=2'')
   \<and> list_all (\<lambda>t. Type t = Generic) (lineTokens goURL latin1Only id ''example.com/a?x=1&x=2'')"
  using repeated_key_example [OF rangeOrder_id, of latin1Only] rangeOrder_id
  by simp

text \<open>
  The claim C4 as stated fails: the line \<open>example.com/a?x=1&x=2\<close> yields no \<open>ParamName\<close>
  token and no \<open>ParamValue\<close> token at all.
\<close>

theorem repeated_key_counterexample:
  "filter (\<lambda>t. Type t = ParamName \<or> Type t = ParamValue)
     (lineTokens goURL latin1Only id ''example.com/a?x=1&x=2'') = []
   \<and> length (filter (\<lambda>t. Type t = ParamName \<and> Value t = ''x'')
        (lineTokens goURL latin1Only id ''example.com/a?x=1&x=2'')) \<noteq> 1
   \<and> Parse goURL ''example.com/a?x=1&x=2''
       = Inr \<lparr>Scheme = [], Opaque = [], User = None, Host = [],
              URL_Path = ''example.com/a'', RawQuery = ''x=1&x=2'', URL_Fragment = []\<rparr>"
  by (simp add: strings_eval neturl_eval tokens_eval loop_eval Let_def)

section \<open>Port and user information\<close>





section \<open>Percent-decoding\<close>

lemma unescape_scan_ok_indep:
  "isl (unescape_scan mode s n p) = isl (unescape_scan mode s n' p')"
proof (induction mode s n p arbitrary: n' p' rule: unescape_scan.induct)
  case (1 mode n hasPlus)
  show ?case by simp
next
  case (2 mode c s n hasPlus)
  show ?case
  proof (cases "c = CHR ''%''")
    case True
    show ?thesis
    proof (cases s)
      case Nil
      with True show ?thesis by simp
    next
      case (Cons h1 s1)
      show ?thesis
      proof (cases s1)
        case Nil
        with True Cons show ?thesis by simp
      next
        case (Cons h2 rest)
        with True \<open>s = h1 # s1\<close> "2.IH"(1) [of h1 s1 h2 rest "n' + 1" p']
        show ?thesis by auto
      qed
    qed
  next
    case False
    with "2.IH"(2) [of n' "mode = encodeQueryComponent"] "2.IH"(3) [of n' p']
    show ?thesis by auto
  qed
qed

lemma ishex_plus: "\<not> ishex CHR ''+''"
  by (simp add: ishex_def inRange_def)

lemma ishex_percent: "\<not> ishex CHR ''%''"
  by (simp add: ishex_def inRange_def)

lemma unescape_scan_result:
  "unescape_scan mode s n p = Inr (n', p') \<Longrightarrow>
     n \<le> n' \<and> (n' = n \<longrightarrow> CHR ''%'' \<notin> set s)
     \<and> (\<not> p' \<longrightarrow> mode \<noteq> encodeQueryComponent \<or> CHR ''+'' \<notin> set s)
     \<and> (CHR ''+'' \<notin> set s \<longrightarrow> p' = p)"
proof (induction mode s n p rule: unescape_scan.induct)
  case (1 mode n hasPlus)
  then show ?case by simp
next
  case (2 mode c s n hasPlus)
  then show ?case
    by (auto simp add: ishex_plus split: if_splits list.splits)
qed

lemma unescape_build_id:
  "CHR ''%'' \<notin> set s \<Longrightarrow> mode \<noteq> encodeQueryComponent \<or> CHR ''+'' \<notin> set s \<Longrightarrow>
   unescape_build mode s = s"
  by (induction s) auto

lemma unescape_eq_build: "unescape s mode = Inr t \<Longrightarrow> t = unescape_build mode s"
proof -
  assume u: "unescape s mode = Inr t"
  then obtain n p where sc: "unescape_scan mode s 0 False = Inr (n, p)"
    by (auto simp add: unescape_def split: sum.splits)
  show ?thesis
  proof (cases "n = 0 \<and> \<not> p")
    case True
    then have "unescape_build mode s = s"
      using unescape_scan_result [OF sc] by (intro unescape_build_id) auto
    with u sc True show ?thesis by (simp add: unescape_def)
  next
    case False
    with u sc show ?thesis by (auto simp add: unescape_def)
  qed
qed

lemma unescape_ok_build:
  "isl (unescape_scan mode s 0 False) \<or> unescape s mode = Inr (unescape_build mode s)"
proof (cases "unescape s mode")
  case (Inl err)
  then show ?thesis by (auto simp add: unescape_def split: sum.splits prod.splits if_splits)
next
  case (Inr t)
  then show ?thesis using unescape_eq_build [OF Inr] by simp
qed

lemma unescape_build_escape:
  "CHR ''%'' \<notin> set a \<Longrightarrow>
   unescape_build mode (a @ CHR ''%'' # h1 # h2 # b)
     = unescape_build mode a @ char_of (unhex h1 * 16 + unhex h2) # unescape_build mode b"
  by (induction a) auto

lemma unescape_scan_prefix:
  "CHR ''%'' \<notin> set a \<Longrightarrow> \<not> isl (unescape_scan mode (a @ rest) n p) \<Longrightarrow>
   \<not> isl (unescape_scan mode a n p)"
  by (induction a arbitrary: n p) (auto split: if_splits)

lemma unescape_scan_suffix:
  "CHR ''%'' \<notin> set a \<Longrightarrow> \<not> isl (unescape_scan mode (a @ CHR ''%'' # h1 # h2 # b) n p) \<Longrightarrow>
   ishex h1 \<and> ishex h2 \<and> \<not> isl (unescape_scan mode b 0 False)"
proof (induction a arbitrary: n p)
  case Nil
  then show ?case
    using unescape_scan_ok_indep [of mode b "n + 1" p 0 False]
    by (auto split: if_splits)
next
  case (Cons c a)
  then show ?case by (auto split: if_splits)
qed


lemma unescape_ok: "\<not> isl (unescape_scan mode s 0 False) \<Longrightarrow> unescape s mode = Inr (unescape_build mode s)"
  using unescape_ok_build [of mode s] by simp

section \<open>\<open>url.Parse\<close> on a line written from its parts\<close>

lemma Index_byte_None: "c \<notin> set s \<Longrightarrow> Index s [c] = None"
  by (induction s) (auto simp add: HasPrefix_def)

lemma Index_byte_append: "c \<notin> set a \<Longrightarrow> Index (a @ c # b) [c] = Some (length a)"
  by (induction a) (auto simp add: HasPrefix_def)

lemma Cut_byte_None: "c \<notin> set s \<Longrightarrow> Cut s [c] = (s, [], False)"
  by (simp add: Cut_def Index_byte_None)

lemma Cut_byte_append: "c \<notin> set a \<Longrightarrow> Cut (a @ c # b) [c] = (a, b, True)"
  by (simp add: Cut_def Index_byte_append)

lemma getScheme_loop_scheme:
  assumes "list_all isSchemeByte s" "i + length s > 0" "i = 0 \<longrightarrow> validScheme s"
  shows "getScheme_loop rawURL i (s @ CHR '':'' # rest)
       = Inr (take (i + length s) rawURL, drop (i + length s + 1) rawURL)"
  using assms
proof (induction s arbitrary: i)
  case Nil
  then show ?case by (simp add: inRange_def)
next
  case (Cons c s)
  have "getScheme_loop rawURL (i + 1) (s @ CHR '':'' # rest)
      = Inr (take (i + 1 + length s) rawURL, drop (i + 1 + length s + 1) rawURL)"
    using Cons.prems by (intro Cons.IH) simp_all
  moreover have "inRange CHR ''a'' CHR ''z'' c \<or> inRange CHR ''A'' CHR ''Z'' c
      \<or> (i \<noteq> 0 \<and> (inRange CHR ''0'' CHR ''9'' c \<or> c = CHR ''+'' \<or> c = CHR ''-'' \<or> c = CHR ''.''))"
    using Cons.prems by (cases "i = 0") (auto simp add: validScheme_def isSchemeByte_def)
  ultimately show ?case by auto
qed

lemma getScheme_scheme:
  assumes "validScheme scheme"
  shows "getScheme (scheme @ CHR '':'' # rest) = Inr (scheme, rest)"
proof -
  have a: "list_all isSchemeByte scheme"
    using assms by (auto simp add: validScheme_def isSchemeByte_def split: list.splits)
  have b: "0 + length scheme > 0"
    using assms by (auto simp add: validScheme_def split: list.splits)
  show ?thesis
    unfolding getScheme_def
    using getScheme_loop_scheme [OF a b, of "scheme @ CHR '':'' # rest" rest] assms by simp
qed

lemma isSchemeByte_not_special:
  "isSchemeByte c \<Longrightarrow> c \<noteq> CHR ''#'' \<and> c \<noteq> CHR ''?'' \<and> c \<noteq> CHR ''/'' \<and> c \<noteq> CHR ''*''"
  by (auto simp add: isSchemeByte_def inRange_def)

lemma validScheme_bytes: "validScheme s \<Longrightarrow> s \<noteq> [] \<and> list_all isSchemeByte s"
  by (auto simp add: validScheme_def isSchemeByte_def split: list.splits)

lemma validScheme_no_special:
  assumes "validScheme s"
  shows "CHR ''#'' \<notin> set s" "CHR ''?'' \<notin> set s" "CHR ''/'' \<notin> set s"
  using validScheme_bytes [OF assms] isSchemeByte_not_special
  by (auto simp add: list_all_iff)


lemma HasSuffix_byte: "HasSuffix s [c] \<longleftrightarrow> s \<noteq> [] \<and> last s = c"
proof (cases s rule: rev_cases)
  case Nil
  then show ?thesis by (simp add: HasSuffix_def)
next
  case (snoc xs x)
  then show ?thesis by (auto simp add: HasSuffix_def)
qed

lemma Count_append: "Count (a @ b) c = Count a c + Count b c"
  by (simp add: Count_def)

lemma Count_zero: "c \<notin> set s \<Longrightarrow> Count s c = 0"
  by (induction s) (auto simp add: Count_def)

lemma Count_pos: "c \<in> set s \<Longrightarrow> Count s c > 0"
  by (induction s) (auto simp add: Count_def)

text \<open>The split of what follows the scheme into the part before the query and the query.\<close>

lemma query_split:
  assumes "CHR ''?'' \<notin> set rest"
  shows "(if HasSuffix (rest @ (case rawquery of None \<Rightarrow> [] | Some q \<Rightarrow> CHR ''?'' # q)) ''?''
             \<and> Count (rest @ (case rawquery of None \<Rightarrow> [] | Some q \<Rightarrow> CHR ''?'' # q)) CHR ''?'' = 1
          then (take (length (rest @ (case rawquery of None \<Rightarrow> [] | Some q \<Rightarrow> CHR ''?'' # q)) - 1)
                  (rest @ (case rawquery of None \<Rightarrow> [] | Some q \<Rightarrow> CHR ''?'' # q)), [])
          else (case Cut (rest @ (case rawquery of None \<Rightarrow> [] | Some q \<Rightarrow> CHR ''?'' # q)) ''?'' of
                  (before, after, found) \<Rightarrow> (before, after)))
       = (rest, case rawquery of None \<Rightarrow> [] | Some q \<Rightarrow> q)"
proof (cases rawquery)
  case None
  have "\<not> HasSuffix rest ''?''"
  proof
    assume "HasSuffix rest ''?''"
    then have "rest \<noteq> []" "last rest = CHR ''?''" by (simp_all add: HasSuffix_byte)
    then show False using assms last_in_set [of rest] by simp
  qed
  then show ?thesis using assms by (simp add: None Cut_byte_None)
next
  case (Some q)
  show ?thesis
  proof (cases "HasSuffix (rest @ CHR ''?'' # q) ''?'' \<and> Count (rest @ CHR ''?'' # q) CHR ''?'' = 1")
    case True
    then have "Count q CHR ''?'' = 0"
      by (simp add: Count_append Count_zero [OF assms]) (simp add: Count_def)
    then have nq: "CHR ''?'' \<notin> set q" using Count_pos [of "CHR ''?''" q] by auto
    have "q = []"
    proof (rule ccontr)
      assume "q \<noteq> []"
      then have "last (rest @ CHR ''?'' # q) = last q" by simp
      moreover have "last (rest @ CHR ''?'' # q) = CHR ''?''"
        using True by (simp add: HasSuffix_byte)
      ultimately show False using nq \<open>q \<noteq> []\<close> last_in_set [of q] by auto
    qed
    with True show ?thesis by (auto simp add: Some)
  next
    case False
    then show ?thesis using assms by (auto simp add: Some Cut_byte_append)
  qed
qed

lemma authority_split:
  assumes "CHR ''/'' \<notin> set authority" "path = [] \<or> hd path = CHR ''/''"
  shows "(case Index (authority @ path) ''/'' of
            Some i \<Rightarrow> (take i (authority @ path), drop i (authority @ path))
          | None \<Rightarrow> (authority @ path, []))
       = (authority, path)"
proof (cases path)
  case Nil
  then show ?thesis using assms by (simp add: Index_byte_None)
next
  case (Cons c p)
  then have "c = CHR ''/''" using assms(2) by simp
  then show ?thesis using assms(1) by (simp add: Cons Index_byte_append)
qed

lemma ToLower_Nil_iff: "ToLower s = [] \<longleftrightarrow> s = []"
  by (simp add: ToLower_def)

lemma parse_standard:
  assumes vs: "validScheme scheme"
    and au: "CHR ''/'' \<notin> set authority" "CHR ''?'' \<notin> set authority"
    and pa: "path = [] \<or> hd path = CHR ''/''" "CHR ''?'' \<notin> set path"
    and ctl: "\<not> stringContainsCTLByte
                 (scheme @ ''://'' @ authority @ path
                    @ (case rawquery of None \<Rightarrow> [] | Some q \<Rightarrow> CHR ''?'' # q))"
  shows "parse auth (scheme @ ''://'' @ authority @ path
                  @ (case rawquery of None \<Rightarrow> [] | Some q \<Rightarrow> CHR ''?'' # q)) False
       = (case auth authority of
            Inl err \<Rightarrow> Inl err
          | Inr (user, host) \<Rightarrow>
              setPath (emptyURL\<lparr>Scheme := ToLower scheme,
                                RawQuery := (case rawquery of None \<Rightarrow> [] | Some q \<Rightarrow> q),
                                User := user, Host := host\<rparr>) path)"
proof -
  let ?qpart = "case rawquery of None \<Rightarrow> [] | Some q \<Rightarrow> CHR ''?'' # q"
  let ?rest = "''//'' @ authority @ path"
  let ?raw = "scheme @ ''://'' @ authority @ path @ ?qpart"
  have raw: "?raw = scheme @ CHR '':'' # (?rest @ ?qpart)" by simp
  have sne: "scheme \<noteq> []" using validScheme_bytes [OF vs] by simp
  have star: "?raw \<noteq> ''*''" using sne by (cases scheme) simp_all
  have gs: "getScheme ?raw = Inr (scheme, ?rest @ ?qpart)"
    unfolding raw using vs by (rule getScheme_scheme)
  have nq: "CHR ''?'' \<notin> set ?rest" using au pa by simp
  note qs = query_split [OF nq, of rawquery]
  have as: "(case Index (drop 2 ?rest) ''/'' of
            Some i \<Rightarrow> (take i (drop 2 ?rest), drop i (drop 2 ?rest))
          | None \<Rightarrow> (drop 2 ?rest, [])) = (authority, path)"
  proof -
    have d: "drop 2 ?rest = authority @ path" by simp
    show ?thesis unfolding d by (rule authority_split [OF au(1) pa(1)])
  qed
  have hp: "HasPrefix ?rest ''/''" "HasPrefix ?rest ''//''"
    by (simp_all add: HasPrefix_def)
  show ?thesis
    unfolding parse_def using ctl star
    by (simp only: gs qs as hp sum.case prod.case Let_def if_True if_False simp_thms
        ToLower_Nil_iff sne)
qed


text \<open>\<open>url.Parse\<close> on a line written from its parts.\<close>

lemma url_Parse_standard:
  assumes vs: "validScheme scheme"
    and au: "CHR ''/'' \<notin> set authority" "CHR ''?'' \<notin> set authority" "CHR ''#'' \<notin> set authority"
    and pa: "path = [] \<or> hd path = CHR ''/''" "CHR ''?'' \<notin> set path" "CHR ''#'' \<notin> set path"
    and qu: "\<forall>q. rawquery = Some q \<longrightarrow> CHR ''#'' \<notin> set q"
    and ctl: "\<not> stringContainsCTLByte
                 (scheme @ ''://'' @ authority @ path
                    @ (case rawquery of None \<Rightarrow> [] | Some q \<Rightarrow> CHR ''?'' # q))"
  shows "url_Parse auth (assemble scheme authority path rawquery rawfragment)
       = (case auth authority of
            Inl err \<Rightarrow> Inl err
          | Inr (user, host) \<Rightarrow>
             (case setPath (emptyURL\<lparr>Scheme := ToLower scheme,
                                RawQuery := (case rawquery of None \<Rightarrow> [] | Some q \<Rightarrow> q),
                                User := user, Host := host\<rparr>) path of
                Inl err \<Rightarrow> Inl err
              | Inr url \<Rightarrow>
                 (case rawfragment of
                    None \<Rightarrow> Inr url
                  | Some f \<Rightarrow> if f = [] then Inr url else setFragment url f)))"
proof -
  let ?pre = "scheme @ ''://'' @ authority @ path
                @ (case rawquery of None \<Rightarrow> [] | Some q \<Rightarrow> CHR ''?'' # q)"
  have nh: "CHR ''#'' \<notin> set ?pre"
    using validScheme_no_special(1) [OF vs] au(3) pa(3) qu by (auto split: option.splits)
  have cut: "Cut (assemble scheme authority path rawquery rawfragment) ''#''
       = (?pre, (case rawfragment of None \<Rightarrow> [] | Some f \<Rightarrow> f), rawfragment \<noteq> None)"
  proof (cases rawfragment)
    case None
    then show ?thesis using Cut_byte_None [OF nh] by (simp add: assemble_def)
  next
    case (Some f)
    then show ?thesis using Cut_byte_append [OF nh, of f] by (simp add: assemble_def)
  qed
  note p = parse_standard [OF vs au(1,2) pa(1,2) ctl]
  show ?thesis
    unfolding url_Parse_def cut prod.case p
    by (auto split: sum.splits option.splits)
qed

lemma Split_Cut:
  "Split (c # q) sep =
     (if sep \<in> set (c # q)
      then fst (Cut (c # q) [sep]) # Split (fst (snd (Cut (c # q) [sep]))) sep
      else [c # q])"
proof (induction q arbitrary: c)
  case Nil
  show ?case by (simp add: Cut_def HasPrefix_def)
next
  case (Cons d q)
  show ?case
  proof (cases "c = sep")
    case True
    then show ?thesis by (simp add: Cut_def HasPrefix_def)
  next
    case False
    show ?thesis
    proof (cases "sep \<in> set (d # q)")
      case True
      then obtain a b where ab: "d # q = a @ sep # b" "sep \<notin> set a"
        by (meson split_list_first)
      have 1: "Cut (c # d # q) [sep] = (c # a, b, True)"
        using Cut_byte_append [of sep "c # a" b] ab False by simp
      have 2: "Cut (d # q) [sep] = (a, b, True)"
        using Cut_byte_append [of sep a b] ab by simp
      show ?thesis
        using Cons [of d] True False by (simp add: 1 2 del: Split.simps(2))
           (simp add: 2)
    next
      case False
      with \<open>c \<noteq> sep\<close> Cons [of d] show ?thesis by simp
    qed
  qed
qed

lemma parseQuery_fold:
  "parseQuery m err q = foldl queryStep (m, err) (Split q CHR ''&'')"
proof (induction m err q rule: parseQuery.induct)
  case (1 m err)
  show ?case by (simp add: queryStep_def Contains_def HasPrefix_def)
next
  case (2 m err c q)
  let ?key = "fst (Cut (c # q) ''&'')"
  let ?query = "fst (snd (Cut (c # q) ''&''))"
  show ?case
  proof (cases "CHR ''&'' \<in> set (c # q)")
    case True
    have sp: "Split (c # q) CHR ''&'' = ?key # Split ?query CHR ''&''"
      using True by (subst Split_Cut) simp
    show ?thesis
      unfolding sp using "2.IH"
      by (simp add: queryStep_def Let_def split: sum.splits del: Split.simps)
  next
    case False
    have sp: "Split (c # q) CHR ''&'' = [c # q]"
      using False by (subst Split_Cut) simp
    have ct: "Cut (c # q) ''&'' = (c # q, [], False)"
      using False by (rule Cut_byte_None)
    show ?thesis
      unfolding sp
      by (simp add: ct queryStep_def Let_def split: sum.splits del: Split.simps)
  qed
qed

lemma setPath_fields:
  "setPath url p = Inr url' \<Longrightarrow>
   url' = url\<lparr>URL_Path := unescape_build encodePath p\<rparr>
   \<and> setPath (url\<lparr>User := a, Host := b\<rparr>) p = Inr (url'\<lparr>User := a, Host := b\<rparr>)"
  by (auto simp add: setPath_def split: sum.splits dest: unescape_eq_build)

lemma setFragment_fields:
  "setFragment url f = Inr url' \<Longrightarrow>
   url' = url\<lparr>URL_Fragment := unescape_build encodeFragment f\<rparr>
   \<and> setFragment (url\<lparr>User := a, Host := b\<rparr>) f = Inr (url'\<lparr>User := a, Host := b\<rparr>)"
  by (auto simp add: setFragment_def split: sum.splits dest: unescape_eq_build)

lemma url_Parse_fields:
  assumes vs: "validScheme scheme"
    and au: "CHR ''/'' \<notin> set authority" "CHR ''?'' \<notin> set authority" "CHR ''#'' \<notin> set authority"
    and pa: "path = [] \<or> hd path = CHR ''/''" "CHR ''?'' \<notin> set path" "CHR ''#'' \<notin> set path"
    and qu: "\<forall>q. rawquery = Some q \<longrightarrow> CHR ''#'' \<notin> set q"
    and ctl: "\<not> stringContainsCTLByte
                 (scheme @ ''://'' @ authority @ path
                    @ (case rawquery of None \<Rightarrow> [] | Some q \<Rightarrow> CHR ''?'' # q))"
    and ok: "url_Parse auth (assemble scheme authority path rawquery rawfragment) = Inr u"
  shows "Scheme u = ToLower scheme
    \<and> auth authority = Inr (User u, Host u)
    \<and> URL_Path u = unescape_build encodePath path
    \<and> RawQuery u = (case rawquery of None \<Rightarrow> [] | Some q \<Rightarrow> q)
    \<and> URL_Fragment u = unescape_build encodeFragment (case rawfragment of None \<Rightarrow> [] | Some f \<Rightarrow> f)"
proof -
  let ?rq = "case rawquery of None \<Rightarrow> [] | Some q \<Rightarrow> q"
  note std = url_Parse_standard [OF vs au pa qu ctl, of auth rawfragment]
  obtain user host where pA: "auth authority = Inr (user, host)"
    using ok unfolding std by (cases "auth authority") auto
  let ?U = "emptyURL\<lparr>Scheme := ToLower scheme, RawQuery := ?rq, User := user, Host := host\<rparr>"
  obtain url1 where sp: "setPath ?U path = Inr url1"
    using ok unfolding std by (cases "setPath ?U path") (auto simp add: pA)
  have fr: "(case rawfragment of None \<Rightarrow> Inr url1
              | Some f \<Rightarrow> if f = [] then Inr url1 else setFragment url1 f) = Inr u"
    using ok unfolding std by (simp add: pA sp)
  have url1: "url1 = ?U\<lparr>URL_Path := unescape_build encodePath path\<rparr>"
    using setPath_fields [OF sp] by blast
  have u: "u = url1\<lparr>URL_Fragment := unescape_build encodeFragment
                     (case rawfragment of None \<Rightarrow> [] | Some f \<Rightarrow> f)\<rparr>"
  proof (cases rawfragment)
    case None
    with fr url1 show ?thesis by (auto simp add: emptyURL_def)
  next
    case (Some f)
    show ?thesis
    proof (cases "f = []")
      case True
      with fr url1 Some show ?thesis by (auto simp add: emptyURL_def)
    next
      case False
      with fr Some have "setFragment url1 f = Inr u" by simp
      from setFragment_fields [OF this] Some show ?thesis by simp
    qed
  qed
  show ?thesis by (simp add: u url1 pA emptyURL_def)
qed

lemma url_ParseQuery_fold:
  "Count q CHR ''&'' < urlmaxqueryparams \<Longrightarrow>
   url_ParseQuery q = foldl queryStep ([], None) (Split q CHR ''&'')"
  by (simp add: url_ParseQuery_def parseQuery_fold)

lemma QueryUnescape_build: "QueryUnescape s = Inr t \<Longrightarrow> t = unescape_build encodeQueryComponent s"
  unfolding QueryUnescape_def by (rule unescape_eq_build)

section \<open>The host name of a host field\<close>











text \<open>
  C10: take a line \<open>scheme://authority\<close> followed by a path, a query and a fragment, and
  \<open>url.Parse\<close> with any function for the authority.  If the line is accepted with a
  non-empty host, the path and the fragment that \<open>main\<close> run-splits are the unescaped raw
  path and raw fragment; and with \<open>url.ParseQuery\<close>, for a raw query of at most
  \<open>urlmaxqueryparams\<close> segments, the keys and values that it run-splits are those of the
  segments of the raw query, each passed through \<open>QueryUnescape\<close>.  Unescaping replaces an
  escape \<open>%h1h2\<close> by the byte with that hexadecimal value and leaves the text without
  escapes as it is (but for \<open>+\<close> in a query component, which becomes a space).
\<close>

theorem percent_escapes_are_decoded:
  assumes "Parse L = url_Parse auth"
    and "validScheme scheme"
    and "CHR ''/'' \<notin> set authority" and "CHR ''?'' \<notin> set authority" and "CHR ''#'' \<notin> set authority"
    and "path = [] \<or> hd path = CHR ''/''" and "CHR ''?'' \<notin> set path" and "CHR ''#'' \<notin> set path"
    and "\<forall>q. rawquery = Some q \<longrightarrow> CHR ''#'' \<notin> set q"
    and "\<not> stringContainsCTLByte
            (scheme @ ''://'' @ authority @ path
               @ (case rawquery of None \<Rightarrow> [] | Some q \<Rightarrow> CHR ''?'' # q))"
    and "Parse L (assemble scheme authority path rawquery rawfragment) = Inr u"
    and "Host u \<noteq> []"
  shows "URL_Path u = unescape_build encodePath path
    \<and> URL_Fragment u
        = unescape_build encodeFragment (case rawfragment of None \<Rightarrow> [] | Some f \<Rightarrow> f)
    \<and> RawQuery u = (case rawquery of None \<Rightarrow> [] | Some q \<Rightarrow> q)
    \<and> isURL L (assemble scheme authority path rawquery rawfragment)
    \<and> lineTokens L T order (assemble scheme authority path rawquery rawfragment)
        = hostnameTokens T u
          @ concat (map (\<lambda>part. subTokenize T part Path)
                      (Split (unescape_build encodePath path) CHR ''/''))
          @ queryTokens L T order u
          @ subTokenize T
              (unescape_build encodeFragment (case rawfragment of None \<Rightarrow> [] | Some f \<Rightarrow> f))
              Fragment
    \<and> (ParseQuery L = url_ParseQuery
         \<and> Count (case rawquery of None \<Rightarrow> [] | Some q \<Rightarrow> q) CHR ''&'' < urlmaxqueryparams \<longrightarrow>
          ParseQuery L (RawQuery u)
            = foldl queryStep ([], None)
                (Split (case rawquery of None \<Rightarrow> [] | Some q \<Rightarrow> q) CHR ''&'')
          \<and> queryTokens L T order u
            = (case foldl queryStep ([], None)
                      (Split (case rawquery of None \<Rightarrow> [] | Some q \<Rightarrow> q) CHR ''&'') of
                 (query, None) \<Rightarrow> concat (map (keyTokens T) (order query))
               | (query, Some err) \<Rightarrow> []))
    \<and> (QueryUnescape s = Inr t \<longrightarrow> t = unescape_build encodeQueryComponent s)
    \<and> (CHR ''%'' \<notin> set a \<longrightarrow>
          unescape_build mode (a @ CHR ''%'' # h1 # h2 # b)
            = unescape_build mode a @ char_of (unhex h1 * 16 + unhex h2) # unescape_build mode b)
    \<and> (CHR ''%'' \<notin> set a \<and> (mode \<noteq> encodeQueryComponent \<or> CHR ''+'' \<notin> set a)
          \<longrightarrow> unescape_build mode a = a)"
proof -
  let ?line = "assemble scheme authority path rawquery rawfragment"
  let ?rq = "case rawquery of None \<Rightarrow> [] | Some q \<Rightarrow> q"
  have ok: "url_Parse auth ?line = Inr u" using assms(1,11) by simp
  note F = url_Parse_fields [OF assms(2-10) ok]
  have sch: "Scheme u \<noteq> []"
    using F validScheme_bytes [OF assms(2)] by (simp add: ToLower_Nil_iff)
  have isu: "isURL L ?line"
    using assms(11,12) sch by (simp add: isURL_def)
  have lt: "lineTokens L T order ?line = urlTokens L T order u"
    using assms(11) sch assms(12) by (rule lineTokens_url)
  have ut: "urlTokens L T order u
        = hostnameTokens T u
          @ concat (map (\<lambda>part. subTokenize T part Path)
                      (Split (unescape_build encodePath path) CHR ''/''))
          @ queryTokens L T order u
          @ subTokenize T
              (unescape_build encodeFragment (case rawfragment of None \<Rightarrow> [] | Some f \<Rightarrow> f))
              Fragment"
    using F by (simp add: urlTokens_def pathTokens_def fragmentTokens_def)
  have pq: "ParseQuery L = url_ParseQuery \<and> Count ?rq CHR ''&'' < urlmaxqueryparams \<longrightarrow>
          ParseQuery L (RawQuery u) = foldl queryStep ([], None) (Split ?rq CHR ''&'')
          \<and> queryTokens L T order u
            = (case foldl queryStep ([], None) (Split ?rq CHR ''&'') of
                 (query, None) \<Rightarrow> concat (map (keyTokens T) (order query))
               | (query, Some err) \<Rightarrow> [])"
  proof (intro impI)
    assume a: "ParseQuery L = url_ParseQuery \<and> Count ?rq CHR ''&'' < urlmaxqueryparams"
    have rq: "RawQuery u = ?rq" using F by blast
    have 1: "ParseQuery L (RawQuery u) = foldl queryStep ([], None) (Split ?rq CHR ''&'')"
      using a url_ParseQuery_fold [of ?rq] by (simp add: rq)
    show "ParseQuery L (RawQuery u) = foldl queryStep ([], None) (Split ?rq CHR ''&'')
          \<and> queryTokens L T order u
            = (case foldl queryStep ([], None) (Split ?rq CHR ''&'') of
                 (query, None) \<Rightarrow> concat (map (keyTokens T) (order query))
               | (query, Some err) \<Rightarrow> [])"
      using 1 by (simp add: queryTokens_def)
  qed
  have f1: "URL_Path u = unescape_build encodePath path" using F by blast
  have f2: "URL_Fragment u
        = unescape_build encodeFragment (case rawfragment of None \<Rightarrow> [] | Some f \<Rightarrow> f)"
    using F by blast
  have f3: "RawQuery u = ?rq" using F by blast
  have f4: "lineTokens L T order ?line
        = hostnameTokens T u
          @ concat (map (\<lambda>part. subTokenize T part Path)
                      (Split (unescape_build encodePath path) CHR ''/''))
          @ queryTokens L T order u
          @ subTokenize T
              (unescape_build encodeFragment (case rawfragment of None \<Rightarrow> [] | Some f \<Rightarrow> f))
              Fragment"
    using lt ut by simp
  have g1: "QueryUnescape s = Inr t \<longrightarrow> t = unescape_build encodeQueryComponent s"
    using QueryUnescape_build [of s t] by blast
  have g2: "CHR ''%'' \<notin> set a \<longrightarrow>
          unescape_build mode (a @ CHR ''%'' # h1 # h2 # b)
            = unescape_build mode a @ char_of (unhex h1 * 16 + unhex h2) # unescape_build mode b"
    using unescape_build_escape [of a mode h1 h2 b] by blast
  have g3: "CHR ''%'' \<notin> set a \<and> (mode \<noteq> encodeQueryComponent \<or> CHR ''+'' \<notin> set a)
          \<longrightarrow> unescape_build mode a = a"
    using unescape_build_id [of a mode] by blast
  from f1 f2 f3 isu f4 pq g1 g2 g3 show ?thesis by blast
qed

theorem percent_escapes_are_decoded_witness:
  "validScheme ''https''
   \<and> Parse goURL = url_Parse (parseAuthority noIPLiteral) \<and> ParseQuery goURL = url_ParseQuery
   \<and> assemble ''https'' ''h'' ''/%61dmin'' (Some ''%61b=%63d'') (Some ''fr%61g'')
       = ''https://h/%61dmin?%61b=%63d#fr%61g''
   \<and> Parse goURL ''https://h/%61dmin?%61b=%63d#fr%61g''
       = Inr \<lparr>Scheme = ''https'', Opaque = [], User = None, Host = ''h'',
              URL_Path = ''/admin'', RawQuery = ''%61b=%63d'', URL_Fragment = ''frag''\<rparr>
   \<and> unescape_build encodePath ''/%61dmin'' = ''/admin''
   \<and> unescape_build encodeFragment ''fr%61g'' = ''frag''
   \<and> Count ''%61b=%63d'' CHR ''&'' < urlmaxqueryparams
   \<and> ParseQuery goURL ''%61b=%63d'' = ([(''ab'', [''cd''])], None)
   \<and> foldl queryStep ([], None) (Split ''%61b=%63d'' CHR ''&'') = ([(''ab'', [''cd''])], None)
   \<and> lineTokens goURL latin1Only id ''https://h/%61dmin?%61b=%63d#fr%61g''
       = [\<lparr>Value = ''h'', Type = Subdomain\<rparr>, \<lparr>Value = ''admin'', Type = Path\<rparr>,
          \<lparr>Value = ''ab'', Type = ParamName\<rparr>, \<lparr>Value = ''cd'', Type = ParamValue\<rparr>,
          \<lparr>Value = ''frag'', Type = Fragment\<rparr>]"
proof -
  let ?u = "\<lparr>Scheme = ''https'', Opaque = [], User = None, Host = ''h'',
              URL_Path = ''/admin'', RawQuery = ''%61b=%63d'', URL_Fragment = ''frag''\<rparr>"
  have a0: "Parse goURL = url_Parse (parseAuthority noIPLiteral)"
    by (simp add: goURL_def goURLWith_def)
  have q0: "ParseQuery goURL = url_ParseQuery"
    by (simp add: goURL_def goURLWith_def)
  have a1: "validScheme ''https''"
    by (simp add: validScheme_def isSchemeByte_def inRange_def)
  have l: "assemble ''https'' ''h'' ''/%61dmin'' (Some ''%61b=%63d'') (Some ''fr%61g'')
       = ''https://h/%61dmin?%61b=%63d#fr%61g''"
    by (simp add: assemble_def)
  have p: "Parse goURL ''https://h/%61dmin?%61b=%63d#fr%61g'' = Inr ?u"
    by (simp add: strings_eval neturl_eval char_of_def bit_Suc_0_iff Let_def)
  have p': "Parse goURL (assemble ''https'' ''h'' ''/%61dmin'' (Some ''%61b=%63d'') (Some ''fr%61g''))
       = Inr ?u"
    unfolding l by (rule p)
  have b2: "CHR ''/'' \<notin> set ''h''" by simp
  have b3: "CHR ''?'' \<notin> set ''h''" by simp
  have b4: "CHR ''#'' \<notin> set ''h''" by simp
  have b5: "''/%61dmin'' = [] \<or> hd ''/%61dmin'' = CHR ''/''" by simp
  have b6: "CHR ''?'' \<notin> set ''/%61dmin''" by simp
  have b7: "CHR ''#'' \<notin> set ''/%61dmin''" by simp
  have b8: "\<forall>q. Some ''%61b=%63d'' = Some q \<longrightarrow> CHR ''#'' \<notin> set q" by simp
  have b9: "\<not> stringContainsCTLByte
            (''https'' @ ''://'' @ ''h'' @ ''/%61dmin''
               @ (case Some ''%61b=%63d'' of None \<Rightarrow> [] | Some q \<Rightarrow> CHR ''?'' # q))"
    by (simp add: stringContainsCTLByte_def)
  have b11: "Host ?u \<noteq> []" by simp
  note th = percent_escapes_are_decoded [OF a0 a1 b2 b3 b4 b5 b6 b7 b8 b9 p' b11,
      where T = latin1Only and order = id]
  have e1: "unescape_build encodePath ''/%61dmin'' = ''/admin''"
    by (simp add: unhex_def inRange_def char_of_def bit_Suc_0_iff)
  have e2: "unescape_build encodeFragment ''fr%61g'' = ''frag''"
    by (simp add: unhex_def inRange_def char_of_def bit_Suc_0_iff)
  have cnt: "Count ''%61b=%63d'' CHR ''&'' < urlmaxqueryparams"
    by (simp add: Count_def urlmaxqueryparams_def)
  have cnt': "Count (case Some ''%61b=%63d'' of None \<Rightarrow> [] | Some q \<Rightarrow> q) CHR ''&'' < urlmaxqueryparams"
    using cnt by simp
  have q: "ParseQuery goURL ''%61b=%63d'' = ([(''ab'', [''cd''])], None)"
    by (simp add: strings_eval neturl_eval char_of_def bit_Suc_0_iff Let_def)
  have f0: "ParseQuery goURL (RawQuery ?u)
      = foldl queryStep ([], None)
          (Split (case Some ''%61b=%63d'' of None \<Rightarrow> [] | Some q \<Rightarrow> q) CHR ''&'')"
    using th q0 cnt' by blast
  have rq: "RawQuery ?u = ''%61b=%63d''" by simp
  have f: "foldl queryStep ([], None) (Split ''%61b=%63d'' CHR ''&'') = ([(''ab'', [''cd''])], None)"
    using f0 [unfolded rq option.case] q by (simp only:)
  have t: "lineTokens goURL latin1Only id ''https://h/%61dmin?%61b=%63d#fr%61g''
       = [\<lparr>Value = ''h'', Type = Subdomain\<rparr>, \<lparr>Value = ''admin'', Type = Path\<rparr>,
          \<lparr>Value = ''ab'', Type = ParamName\<rparr>, \<lparr>Value = ''cd'', Type = ParamValue\<rparr>,
          \<lparr>Value = ''frag'', Type = Fragment\<rparr>]"
    by (simp add: strings_eval neturl_eval tokens_eval loop_eval Let_def)
  show ?thesis
    using a0 q0 a1 l p e1 e2 cnt q f t by simp
qed

end
